theory Spec2Isabelle
  imports Complex_Main
begin

section \<open>Data model\<close>

text \<open>
  The constants of \<^verbatim>\<open>src/main.go\<close> (lines 31-47) that the tracker uses.
\<close>

definition frontPageNumArticles :: int where
  "frontPageNumArticles = 30"

definition eightHrs :: int where
  "eightHrs = 8 * 60 * 60"

definition humanTrackingLimit :: nat where
  "humanTrackingLimit = 300"

definition itemFromFile :: string where
  "itemFromFile = ''file''"

definition itemFromHN :: string where
  "itemFromHN = ''hn''"

definition hnPostLink :: string where
  "hnPostLink = ''https://news.ycombinator.com/item?id=%d''"

text \<open>
  Modelled from the spec: the struct \<^verbatim>\<open>item\<close>, whose declaration is not in
  \<^verbatim>\<open>src/main.go\<close>. The fields are the ones section 3 of the specification lists and
  the code reads and writes (\<^verbatim>\<open>ID\<close>, \<^verbatim>\<open>URL\<close>, \<^verbatim>\<open>Added\<close>, \<^verbatim>\<open>Domain\<close>, \<^verbatim>\<open>From\<close>,
  \<^verbatim>\<open>DiscussLink\<close>). \<^verbatim>\<open>Added\<close> is a \<^verbatim>\<open>unixTime\<close> (seconds), the strings are Go strings,
  an unset field is the zero value (\<open>0\<close>, the empty string).
\<close>

record item =
  ID :: int
  URL :: string
  Added :: int
  Domain_f :: string
  From :: string
  DiscussLink :: string

text \<open>
  Modelled from the spec: the struct \<^verbatim>\<open>limitQueue\<close>, whose declaration is not in
  \<^verbatim>\<open>src/main.go\<close>; the composite literal of lines 153-157 gives its three fields.
  The Go map of item pointers is a partial map from IDs to items.
\<close>

record limitQueue =
  limit :: nat
  keys :: "int list"
  store :: "int \<rightharpoonup> item"

text \<open>The tracker as \<^verbatim>\<open>main\<close> creates it (lines 153-157).\<close>

definition queue :: limitQueue where
  "queue = \<lparr>limit = humanTrackingLimit, keys = [], store = Map.empty\<rparr>"

datatype changeAction = changeAdd | changeRemove

record change =
  Action :: changeAction
  Item :: item

section \<open>The bounded tracker\<close>

text \<open>
  Modelled from the spec: the method \<^verbatim>\<open>limitQueue.add\<close>, which \<^verbatim>\<open>storyLister\<close> calls at
  line 387 and whose body is not in \<^verbatim>\<open>src/main.go\<close>. Section 3 of the specification:
  if the item's ID is already present, overwrite the item in place (the order of the
  keys unchanged) and return nothing removed; else append the ID, insert into the store,
  and if the size now exceeds the capacity, remove the oldest key and item (index 0) and
  return it as the evicted item. The result is the new tracker and the removed item
  (\<open>None\<close> for Go's nil).
\<close>

definition add :: "limitQueue \<Rightarrow> item \<Rightarrow> limitQueue \<times> item option" where
  "add lq it =
     (if store lq (ID it) \<noteq> None
      then (lq\<lparr>store := (store lq)(ID it \<mapsto> it)\<rparr>, None)
      else
        (let keys' = keys lq @ [ID it];
             store' = (store lq)(ID it \<mapsto> it)
         in if limit lq < length keys'
            then (case keys' of
                    [] \<Rightarrow> (lq\<lparr>keys := keys', store := store'\<rparr>, None)
                  | k # ks \<Rightarrow> (lq\<lparr>keys := ks, store := store'(k := None)\<rparr>, store' k))
            else (lq\<lparr>keys := keys', store := store'\<rparr>, None)))"

text \<open>
  Modelled from the spec: the method \<^verbatim>\<open>limitQueue.remove\<close>, which \<^verbatim>\<open>storyRemover\<close> calls
  at line 448 and whose body is not in \<^verbatim>\<open>src/main.go\<close>. Section 3 of the
  specification: deletes the key and its store entry unconditionally; no-op if absent.
\<close>

definition remove :: "limitQueue \<Rightarrow> int \<Rightarrow> limitQueue" where
  "remove lq k = lq\<lparr>keys := remove1 k (keys lq), store := (store lq)(k := None)\<rparr>"

text \<open>A sequence of \<^verbatim>\<open>add\<close> calls, each on the tracker the previous one left.\<close>

fun add_all :: "limitQueue \<Rightarrow> item list \<Rightarrow> limitQueue" where
  "add_all lq [] = lq"
| "add_all lq (it # its) = add_all (fst (add lq it)) its"

text \<open>
  The invariant of the tracker: at most \<open>limit\<close> stored items, as many keys as store
  entries, and the keys are exactly the IDs that have a store entry.
\<close>

definition lq_inv :: "limitQueue \<Rightarrow> bool" where
  "lq_inv lq \<longleftrightarrow>
     card (dom (store lq)) \<le> limit lq \<and>
     length (keys lq) = card (dom (store lq)) \<and>
     set (keys lq) = dom (store lq)"

section \<open>Go library functions the code calls\<close>

text \<open>
  The errors of the program as values. The first group are the errors of \<^verbatim>\<open>url.Parse\<close>;
  \<open>ExternalError\<close> stands for a failure of the network, the file system or the JSON
  decoder; \<open>SliceBoundsPanic\<close> is the run-time panic of a slice expression out of range.
\<close>

datatype error =
    InvalidControlCharacter
  | MissingProtocolScheme
  | FirstPathSegmentColon
  | MissingBracket
  | InvalidPort string
  | InvalidUserinfo
  | EscapeError string
  | InvalidHostError string
  | ExternalError string
  | SliceBoundsPanic

subsection \<open>Package strings\<close>

definition HasPrefix :: "string \<Rightarrow> string \<Rightarrow> bool" where
  "HasPrefix s p = (take (length p) s = p)"

definition HasSuffix :: "string \<Rightarrow> string \<Rightarrow> bool" where
  "HasSuffix s p = (length p \<le> length s \<and> drop (length s - length p) s = p)"

text \<open>\<^verbatim>\<open>strings.LastIndexByte\<close>; \<open>None\<close> is Go's \<open>-1\<close>.\<close>

definition LastIndexByte :: "string \<Rightarrow> char \<Rightarrow> nat option" where
  "LastIndexByte s c =
     (if c \<in> set s then Some (length s - 1 - length (takeWhile (\<lambda>x. x \<noteq> c) (rev s))) else None)"

text \<open>\<^verbatim>\<open>strings.Index\<close> for a non-empty substring.\<close>

fun Index :: "string \<Rightarrow> string \<Rightarrow> nat option" where
  "Index [] p = (if p = [] then Some 0 else None)"
| "Index (c # cs) p =
     (if HasPrefix (c # cs) p then Some 0
      else (case Index cs p of None \<Rightarrow> None | Some i \<Rightarrow> Some (Suc i)))"

text \<open>
  \<^verbatim>\<open>strings.Cut\<close> with a one-byte separator: the text before the first separator and
  the text after it; without a separator, the whole string and the empty string.
\<close>

definition Cut :: "string \<Rightarrow> char \<Rightarrow> string \<times> string" where
  "Cut s c = (takeWhile (\<lambda>x. x \<noteq> c) s, drop 1 (dropWhile (\<lambda>x. x \<noteq> c) s))"

text \<open>
  \<^verbatim>\<open>strings.Split\<close> with a one-byte separator. The result is never empty: the empty
  string splits into one empty part.
\<close>

fun Split :: "string \<Rightarrow> char \<Rightarrow> string list" where
  "Split [] sep = [[]]"
| "Split (c # cs) sep =
     (if c = sep then [] # Split cs sep
      else (case Split cs sep of [] \<Rightarrow> [[c]] | p # ps \<Rightarrow> (c # p) # ps))"

text \<open>
  \<^verbatim>\<open>strings.NewReplacer(...).Replace\<close> for non-empty old strings: the text is scanned from
  the left; at each position the old strings are compared in argument order, the first
  that matches is replaced and the scan goes on after it, without overlapping matches.
  The counter is the number of bytes of a matched old string still to be skipped.
\<close>

fun first_match :: "(string \<times> string) list \<Rightarrow> string \<Rightarrow> (string \<times> string) option" where
  "first_match [] s = None"
| "first_match ((old, new) # ps) s =
     (if old \<noteq> [] \<and> HasPrefix s old then Some (old, new) else first_match ps s)"

fun Replace_from :: "(string \<times> string) list \<Rightarrow> nat \<Rightarrow> string \<Rightarrow> string" where
  "Replace_from ps n [] = []"
| "Replace_from ps (Suc n) (c # cs) = Replace_from ps n cs"
| "Replace_from ps 0 (c # cs) =
     (case first_match ps (c # cs) of
        None \<Rightarrow> c # Replace_from ps 0 cs
      | Some (old, new) \<Rightarrow> new @ Replace_from ps (length old - 1) cs)"

definition Replace :: "(string \<times> string) list \<Rightarrow> string \<Rightarrow> string" where
  "Replace ps s = Replace_from ps 0 s"

text \<open>\<^verbatim>\<open>fmt.Sprintf("%d", n)\<close>: the decimal digits of an integer.\<close>

fun decimal :: "nat \<Rightarrow> string" where
  "decimal n =
     (if n < 10 then [''0123456789'' ! n]
      else decimal (n div 10) @ [''0123456789'' ! (n mod 10)])"

declare decimal.simps [simp del]

definition Sprintf_d :: "int \<Rightarrow> string" where
  "Sprintf_d n = (if n < 0 then CHR ''-'' # decimal (nat (- n)) else decimal (nat n))"

text \<open>\<^verbatim>\<open>fmt.Sprintf\<close> with a format that has one \<^verbatim>\<open>%d\<close> verb and one integer argument.\<close>

fun Sprintf :: "string \<Rightarrow> int \<Rightarrow> string" where
  "Sprintf [] n = []"
| "Sprintf [c] n = [c]"
| "Sprintf (c # d # cs) n =
     (if c = CHR ''%'' \<and> d = CHR ''d'' then Sprintf_d n @ cs else c # Sprintf (d # cs) n)"

subsection \<open>Package time\<close>

text \<open>
  An instant is its number of nanoseconds since the Unix epoch. \<^verbatim>\<open>Time.Unix\<close> is the
  number of whole seconds.
\<close>

definition Unix :: "int \<Rightarrow> int" where
  "Unix now = now div 1000000000"

text \<open>
  A \<^verbatim>\<open>Time\<close> without a monotonic reading counts its seconds from the year 1, in a
  64-bit integer: \<^verbatim>\<open>time.Unix(sec, 0)\<close> stores \<open>sec + unixToInternal\<close>, and the sum wraps
  around for a \<open>sec\<close> above \<open>2\<^sup>6\<^sup>3 - 1 - unixToInternal\<close>. \<open>int64\<close> is the value of an
  integer in 64-bit two's complement.
\<close>

definition unixToInternal :: int where
  "unixToInternal = 62135596800"

definition int64 :: "int \<Rightarrow> int" where
  "int64 x = (x + 2 ^ 63) mod 2 ^ 64 - 2 ^ 63"

text \<open>
  \<open>Since now added\<close> is \<^verbatim>\<open>time.Since(time.Unix(added, 0))\<close> read at the instant \<open>now\<close>:
  the difference, in nanoseconds, between the seconds and nanoseconds of \<open>now\<close> and the
  stored seconds of the other instant, which \<^verbatim>\<open>Time.Sub\<close> saturates at the bounds of a
  64-bit integer. For an \<open>added\<close> that \<^verbatim>\<open>time.Unix\<close> stores without wrapping this is
  \<open>now - added * 10\<^sup>9\<close>, saturated.

  \<^verbatim>\<open>Duration.Seconds\<close> is the duration divided by \<open>10\<^sup>9\<close>; the model takes the quotient
  as a real number. Go computes it in 64-bit floating point from the whole seconds and
  the remaining nanoseconds; next to \<open>28800\<close> neighbouring floating-point numbers are
  less than \<open>10\<^sup>-\<^sup>9\<close> apart, so the comparison with \<^verbatim>\<open>eightHrs\<close> has the same outcome as
  for the exact quotient.
\<close>

definition Since :: "int \<Rightarrow> int \<Rightarrow> int" where
  "Since now added =
     (let u = int64 (added + unixToInternal);
          t = now div 1000000000 + unixToInternal;
          d = (t - u) * 1000000000 + now mod 1000000000
      in max (- (2 ^ 63)) (min (2 ^ 63 - 1) d))"

definition Seconds :: "int \<Rightarrow> real" where
  "Seconds d = real_of_int d / 1000000000"

subsection \<open>Package net/url\<close>

text \<open>
  \<^verbatim>\<open>url.Parse\<close> and \<^verbatim>\<open>URL.Hostname\<close> of the Go standard library, which \<^verbatim>\<open>urlToDomain\<close>
  calls. The model follows the library function by function (\<^verbatim>\<open>getScheme\<close>, \<^verbatim>\<open>parse\<close>,
  \<^verbatim>\<open>parseAuthority\<close>, \<^verbatim>\<open>parseHost\<close>, \<^verbatim>\<open>validOptionalPort\<close>, \<^verbatim>\<open>unescape\<close>,
  \<^verbatim>\<open>shouldEscape\<close>, \<^verbatim>\<open>splitHostPort\<close>) and keeps the fields of the URL that decide the
  host name.
\<close>

record url =
  Scheme :: string
  Opaque :: string
  Host :: string
  Path :: string

definition isalpha :: "char \<Rightarrow> bool" where
  "isalpha c \<longleftrightarrow> c \<in> set ''abcdefghijklmnopqrstuvwxyzABCDEFGHIJKLMNOPQRSTUVWXYZ''"

definition isdigit :: "char \<Rightarrow> bool" where
  "isdigit c \<longleftrightarrow> c \<in> set ''0123456789''"

definition ishex :: "char \<Rightarrow> bool" where
  "ishex c \<longleftrightarrow> c \<in> set ''0123456789abcdefABCDEF''"

definition unhex :: "char \<Rightarrow> nat" where
  "unhex c =
     (if isdigit c then length (takeWhile (\<lambda>x. x \<noteq> c) ''0123456789'')
      else if c \<in> set ''abcdef'' then 10 + length (takeWhile (\<lambda>x. x \<noteq> c) ''abcdef'')
      else if c \<in> set ''ABCDEF'' then 10 + length (takeWhile (\<lambda>x. x \<noteq> c) ''ABCDEF'')
      else 0)"

definition ToLower :: "string \<Rightarrow> string" where
  "ToLower s =
     map (\<lambda>c. case map_of (zip ''ABCDEFGHIJKLMNOPQRSTUVWXYZ'' ''abcdefghijklmnopqrstuvwxyz'') c of
                 None \<Rightarrow> c | Some l \<Rightarrow> l) s"

text \<open>\<^verbatim>\<open>stringContainsCTLByte\<close>: a byte below the space or the byte \<open>0x7f\<close>.\<close>

definition stringContainsCTLByte :: "string \<Rightarrow> bool" where
  "stringContainsCTLByte s = list_ex (\<lambda>c. (of_char c :: nat) < 32 \<or> (of_char c :: nat) = 127) s"

text \<open>
  \<^verbatim>\<open>getScheme\<close>: the scheme before the first colon and the rest, when the text starts
  with a letter followed by letters, digits, \<open>+\<close>, \<open>-\<close> and \<open>.\<close>; no scheme when another
  byte comes first; an error when the colon is the first byte. \<open>acc\<close> is the prefix read
  so far, \<open>raw\<close> the whole text.
\<close>

fun getScheme_loop :: "string \<Rightarrow> string \<Rightarrow> string \<Rightarrow> error + string \<times> string" where
  "getScheme_loop raw acc [] = Inr ([], raw)"
| "getScheme_loop raw acc (c # cs) =
     (if isalpha c then getScheme_loop raw (acc @ [c]) cs
      else if isdigit c \<or> c = CHR ''+'' \<or> c = CHR ''-'' \<or> c = CHR ''.''
      then (if acc = [] then Inr ([], raw) else getScheme_loop raw (acc @ [c]) cs)
      else if c = CHR '':''
      then (if acc = [] then Inl MissingProtocolScheme else Inr (acc, cs))
      else Inr ([], raw))"

definition getScheme :: "string \<Rightarrow> error + string \<times> string" where
  "getScheme rawURL = getScheme_loop rawURL [] rawURL"

datatype encoding = encodePath | encodeHost | encodeZone | encodeUserPassword | encodeFragment

text \<open>
  \<^verbatim>\<open>shouldEscape(c, encodeHost)\<close>: in a host, letters, digits, the sub-delimiters, the
  colon, the brackets, \<open><\<close>, \<open>>\<close>, the double quote and \<open>-_.~\<close> stand for themselves;
  every other byte would have to be escaped.
\<close>

definition shouldEscape_host :: "char \<Rightarrow> bool" where
  "shouldEscape_host c \<longleftrightarrow>
     \<not> (isalpha c \<or> isdigit c \<or> c \<in> set ''!$&()*+,;=:[]<>'' \<or> c = CHR 0x27 \<or> c = CHR 0x22 \<or>
        c \<in> set ''-_.~'')"

text \<open>
  \<^verbatim>\<open>unescape\<close>: percent-decoding with the checks of the mode. A percent sign must be
  followed by two hexadecimal digits; in a host only \<open>%25\<close> and the escapes of bytes from
  \<open>0x80\<close> are allowed; in a zone an escape may only stand for a host byte, a space or a
  percent sign; an ASCII byte that a host must escape is an error in a host and in a
  zone. The first offending position, from the left, gives the error.
\<close>

fun unescape :: "string \<Rightarrow> encoding \<Rightarrow> error + string" where
  "unescape [] mode = Inr []"
| "unescape (c # cs) mode =
     (if c = CHR ''%'' then
        (if length cs < 2 \<or> \<not> ishex (cs ! 0) \<or> \<not> ishex (cs ! 1)
         then Inl (EscapeError (take 3 (c # cs)))
         else if mode = encodeHost \<and> unhex (cs ! 0) < 8 \<and> take 2 cs \<noteq> ''25''
         then Inl (EscapeError (take 3 (c # cs)))
         else if mode = encodeZone \<and> take 2 cs \<noteq> ''25'' \<and>
                 char_of (unhex (cs ! 0) * 16 + unhex (cs ! 1)) \<noteq> CHR '' '' \<and>
                 shouldEscape_host (char_of (unhex (cs ! 0) * 16 + unhex (cs ! 1)))
         then Inl (EscapeError (take 3 (c # cs)))
         else (case unescape (drop 2 cs) mode of
                 Inl e \<Rightarrow> Inl e
               | Inr r \<Rightarrow> Inr (char_of (unhex (cs ! 0) * 16 + unhex (cs ! 1)) # r)))
      else if c \<noteq> CHR ''+'' \<and> (mode = encodeHost \<or> mode = encodeZone) \<and>
              (of_char c :: nat) < 128 \<and> shouldEscape_host c
      then Inl (InvalidHostError [c])
      else (case unescape cs mode of Inl e \<Rightarrow> Inl e | Inr r \<Rightarrow> Inr (c # r)))"

definition validOptionalPort :: "string \<Rightarrow> bool" where
  "validOptionalPort port =
     (case port of [] \<Rightarrow> True | c # ds \<Rightarrow> c = CHR '':'' \<and> list_all isdigit ds)"

text \<open>
  \<^verbatim>\<open>parseHost\<close>: a bracketed IP literal must close its bracket and may be followed by
  a port; its zone, from \<open>%25\<close> on, is unescaped as a zone. Otherwise what follows the
  last colon must be a port. Then the host is unescaped as a host.
\<close>

definition parseHost :: "string \<Rightarrow> error + string" where
  "parseHost host =
     (if HasPrefix host ''['' then
        (case LastIndexByte host CHR '']'' of
           None \<Rightarrow> Inl MissingBracket
         | Some i \<Rightarrow>
             if \<not> validOptionalPort (drop (i + 1) host) then Inl (InvalidPort (drop (i + 1) host))
             else (case Index (take i host) ''%25'' of
                     None \<Rightarrow> unescape host encodeHost
                   | Some zone \<Rightarrow>
                       (case unescape (take zone host) encodeHost of
                          Inl e \<Rightarrow> Inl e
                        | Inr host1 \<Rightarrow>
                            (case unescape (drop zone (take i host)) encodeZone of
                               Inl e \<Rightarrow> Inl e
                             | Inr host2 \<Rightarrow>
                                 (case unescape (drop i host) encodeHost of
                                    Inl e \<Rightarrow> Inl e
                                  | Inr host3 \<Rightarrow> Inr (host1 @ host2 @ host3))))))
      else
        (case LastIndexByte host CHR '':'' of
           None \<Rightarrow> unescape host encodeHost
         | Some i \<Rightarrow>
             if \<not> validOptionalPort (drop i host) then Inl (InvalidPort (drop i host))
             else unescape host encodeHost))"

definition validUserinfo :: "string \<Rightarrow> bool" where
  "validUserinfo s =
     list_all (\<lambda>c. isalpha c \<or> isdigit c \<or> c \<in> set ''-._:~!$&()*+,;=%@'' \<or> c = CHR 0x27) s"

text \<open>
  \<^verbatim>\<open>parseAuthority\<close>: the host is what follows the last \<open>@\<close>; the user information
  before it must be valid and unescape, as a whole or as name and password around the
  first colon. Only the host is kept.
\<close>

definition parseAuthority :: "string \<Rightarrow> error + string" where
  "parseAuthority authority =
     (case LastIndexByte authority CHR ''@'' of
        None \<Rightarrow> parseHost authority
      | Some i \<Rightarrow>
          (case parseHost (drop (i + 1) authority) of
             Inl e \<Rightarrow> Inl e
           | Inr host \<Rightarrow>
               if \<not> validUserinfo (take i authority) then Inl InvalidUserinfo
               else if CHR '':'' \<notin> set (take i authority) then
                 (case unescape (take i authority) encodeUserPassword of
                    Inl e \<Rightarrow> Inl e | Inr _ \<Rightarrow> Inr host)
               else
                 (case unescape (fst (Cut (take i authority) CHR '':'')) encodeUserPassword of
                    Inl e \<Rightarrow> Inl e
                  | Inr _ \<Rightarrow>
                      (case unescape (snd (Cut (take i authority) CHR '':'')) encodeUserPassword of
                         Inl e \<Rightarrow> Inl e | Inr _ \<Rightarrow> Inr host))))"

text \<open>
  \<^verbatim>\<open>setPath\<close> and the tail of \<^verbatim>\<open>parse\<close>: the path is the unescaped rest.
\<close>

definition setPath :: "url \<Rightarrow> string \<Rightarrow> error + url" where
  "setPath u p = (case unescape p encodePath of Inl e \<Rightarrow> Inl e | Inr path \<Rightarrow> Inr (u\<lparr>Path := path\<rparr>))"

text \<open>
  \<^verbatim>\<open>parse(rawURL, false)\<close>. After the scheme, the query (from the first \<open>?\<close>) is cut
  off. A rest that does not start with a slash is opaque when there is a scheme, and
  otherwise a relative path, whose first segment must not contain a colon. Only a rest
  that starts with \<open>//\<close> (and, without a scheme, not with \<open>///\<close>) has an authority, which
  ends at the next slash.
\<close>

definition parse :: "string \<Rightarrow> error + url" where
  "parse rawURL =
     (if stringContainsCTLByte rawURL then Inl InvalidControlCharacter
      else if rawURL = ''*'' then Inr \<lparr>Scheme = [], Opaque = [], Host = [], Path = ''*''\<rparr>
      else
        (case getScheme rawURL of
           Inl e \<Rightarrow> Inl e
         | Inr (scheme, rest0) \<Rightarrow>
             (let u = \<lparr>Scheme = ToLower scheme, Opaque = [], Host = [], Path = []\<rparr>;
                  rest = fst (Cut rest0 CHR ''?'')
              in if \<not> HasPrefix rest ''/'' \<and> Scheme u \<noteq> [] then Inr (u\<lparr>Opaque := rest\<rparr>)
                 else if \<not> HasPrefix rest ''/'' \<and> CHR '':'' \<in> set (fst (Cut rest CHR ''/''))
                 then Inl FirstPathSegmentColon
                 else if (Scheme u \<noteq> [] \<or> \<not> HasPrefix rest ''///'') \<and> HasPrefix rest ''//''
                 then
                   (let authority = fst (Cut (drop 2 rest) CHR ''/'');
                        rest' = dropWhile (\<lambda>x. x \<noteq> CHR ''/'') (drop 2 rest)
                    in case parseAuthority authority of
                         Inl e \<Rightarrow> Inl e
                       | Inr host \<Rightarrow> setPath (u\<lparr>Host := host\<rparr>) rest')
                 else setPath u rest)))"

text \<open>
  \<^verbatim>\<open>url.Parse\<close>: the fragment, from the first \<open>#\<close>, is cut off before parsing and must
  unescape afterwards.
\<close>

definition Parse :: "string \<Rightarrow> error + url" where
  "Parse rawURL =
     (case parse (fst (Cut rawURL CHR ''#'')) of
        Inl e \<Rightarrow> Inl e
      | Inr u \<Rightarrow>
          if snd (Cut rawURL CHR ''#'') = [] then Inr u
          else (case unescape (snd (Cut rawURL CHR ''#'')) encodeFragment of
                  Inl e \<Rightarrow> Inl e | Inr _ \<Rightarrow> Inr u))"

text \<open>
  \<^verbatim>\<open>URL.Hostname\<close>, through \<^verbatim>\<open>splitHostPort\<close>: the host without a valid port after its
  last colon and without the brackets of an IP literal.
\<close>

definition Hostname :: "url \<Rightarrow> string" where
  "Hostname u =
     (let host = (case LastIndexByte (Host u) CHR '':'' of
                    None \<Rightarrow> Host u
                  | Some colon \<Rightarrow>
                      if validOptionalPort (drop colon (Host u)) then take colon (Host u)
                      else Host u)
      in if HasPrefix host ''['' \<and> HasSuffix host '']'' then take (length host - 2) (drop 1 host)
         else host)"

section \<open>Domain derivation\<close>

text \<open>The replacer \<^verbatim>\<open>r\<close> of line 250, as its list of old and new strings.\<close>

definition r :: "(string \<times> string) list" where
  "r = [(''http://'', []), (''https://'', []), (''www.'', []), (''www2.'', []), (''www3.'', [])]"

text \<open>
  \<^verbatim>\<open>urlToDomain\<close> (lines 251-263). The link is parsed; a parse error is returned. The
  host name is split at the dots; with two parts or more the result is the last two
  joined by a dot, else the replacer applied to the host name.
\<close>

definition urlToDomain :: "string \<Rightarrow> error + string" where
  "urlToDomain link =
     (case Parse link of
        Inl err \<Rightarrow> Inl err
      | Inr u \<Rightarrow>
          (let parts = Split (Hostname u) CHR ''.''
           in if length parts \<ge> 2
              then Inr (parts ! (length parts - 2) @ ''.'' @ parts ! (length parts - 1))
              else Inr (Replace r (Hostname u))))"

section \<open>Source fetchers\<close>

text \<open>
  \<^verbatim>\<open>fetchTopStories\<close> (lines 265-288). \<open>resp\<close> is the outcome of the request and of
  decoding its body into a list of IDs. A list shorter than \<open>limit\<close> lowers \<open>limit\<close> to
  its length; the slice expression \<^verbatim>\<open>items[:limit]\<close> panics for a negative \<open>limit\<close>.
\<close>

definition fetchTopStories :: "error + int list \<Rightarrow> int \<Rightarrow> error + int list" where
  "fetchTopStories resp limit_arg =
     (case resp of
        Inl err \<Rightarrow> Inl err
      | Inr items \<Rightarrow>
          (let limit' = (if int (length items) < limit_arg then int (length items) else limit_arg)
           in if limit' < 0 then Inl SliceBoundsPanic else Inr (take (nat limit') items)))"

text \<open>
  \<^verbatim>\<open>fetchStoriesFromFile\<close> (lines 290-304) and \<^verbatim>\<open>fetchItem\<close> (lines 322-342): the outcome
  of opening and decoding, handed on as it is. Neither writes a field of an item.
\<close>

definition fetchStoriesFromFile :: "error + item list \<Rightarrow> error + item list" where
  "fetchStoriesFromFile decoded = (case decoded of Inl err \<Rightarrow> Inl err | Inr items \<Rightarrow> Inr items)"

definition fetchItem :: "error + item \<Rightarrow> error + item" where
  "fetchItem decoded = (case decoded of Inl err \<Rightarrow> Inl err | Inr it \<Rightarrow> Inr it)"

text \<open>
  \<^verbatim>\<open>serverInputsToUserFetcher\<close> (lines 306-320): the returned error and the items sent
  on \<^verbatim>\<open>incomingItems\<close>, in order. An item with an empty \<^verbatim>\<open>From\<close> is tagged as a file item
  before it is sent.
\<close>

definition serverInputsToUserFetcher :: "error + item list \<Rightarrow> error option \<times> item list" where
  "serverInputsToUserFetcher decoded =
     (case fetchStoriesFromFile decoded of
        Inl err \<Rightarrow> (Some err, [])
      | Inr items \<Rightarrow>
          (None, map (\<lambda>it. if From it = [] then it\<lparr>From := itemFromFile\<rparr> else it) items))"

text \<open>
  \<^verbatim>\<open>topStoriesFetcher\<close> (lines 344-364): the items sent on \<^verbatim>\<open>incomingItems\<close> and the
  errors logged. \<open>cancelled i\<close> tells whether the application context is cancelled when
  iteration \<open>i\<close> starts, \<open>bodies k\<close> is the outcome of requesting and decoding item \<open>k\<close>.
\<close>

fun topStoriesFetcher_loop ::
  "(nat \<Rightarrow> bool) \<Rightarrow> (int \<Rightarrow> error + item) \<Rightarrow> nat \<Rightarrow> int list \<Rightarrow> item list \<times> error list" where
  "topStoriesFetcher_loop cancelled bodies i [] = ([], [])"
| "topStoriesFetcher_loop cancelled bodies i (itID # itemIds) =
     (if cancelled i then ([], [])
      else
        (case fetchItem (bodies itID) of
           Inl err \<Rightarrow>
             (fst (topStoriesFetcher_loop cancelled bodies (Suc i) itemIds),
              err # snd (topStoriesFetcher_loop cancelled bodies (Suc i) itemIds))
         | Inr it \<Rightarrow>
             (it # fst (topStoriesFetcher_loop cancelled bodies (Suc i) itemIds),
              snd (topStoriesFetcher_loop cancelled bodies (Suc i) itemIds))))"

definition topStoriesFetcher ::
  "error + int list \<Rightarrow> (nat \<Rightarrow> bool) \<Rightarrow> (int \<Rightarrow> error + item) \<Rightarrow> int \<Rightarrow>
   error option \<times> item list \<times> error list" where
  "topStoriesFetcher resp cancelled bodies limit_arg =
     (case fetchTopStories resp limit_arg of
        Inl err \<Rightarrow> (Some err, [], [])
      | Inr itemIds \<Rightarrow> (None, topStoriesFetcher_loop cancelled bodies 0 itemIds))"

section \<open>Ingestion consumer\<close>

text \<open>
  Lines 372-385 of \<^verbatim>\<open>storyLister\<close>: the item as it is handed to the tracker, and the
  errors logged on the way. \<open>now\<close> is the reading of the clock. \<^verbatim>\<open>Added\<close> is set when it is
  0; \<^verbatim>\<open>Domain\<close> is derived when it is empty, and an error of the derivation is logged and
  leaves the field as it was; \<^verbatim>\<open>DiscussLink\<close> is set unless the item is tagged as a file
  item. \<^verbatim>\<open>From\<close> is not written.
\<close>

definition normalize :: "int \<Rightarrow> item \<Rightarrow> item \<times> error list" where
  "normalize now it0 =
     (let it1 = (if Added it0 = 0 then it0\<lparr>Added := Unix now\<rparr> else it0);
          derived = (if Domain_f it1 = []
                     then (case urlToDomain (URL it1) of
                             Inr domain \<Rightarrow> (it1\<lparr>Domain_f := domain\<rparr>, [])
                           | Inl err \<Rightarrow> (it1, [err]))
                     else (it1, []));
          it2 = fst derived;
          it3 = (if From it2 \<noteq> itemFromFile
                 then it2\<lparr>DiscussLink := Sprintf hnPostLink (ID it2)\<rparr> else it2)
      in (it3, snd derived))"

text \<open>
  The body of the loop of \<^verbatim>\<open>storyLister\<close> (lines 368-401), run under the lock: the new
  tracker, the changes sent on \<^verbatim>\<open>changeCh\<close> in the order of sending, and the errors
  logged.
\<close>

definition storyLister_step ::
  "int \<Rightarrow> limitQueue \<Rightarrow> item \<Rightarrow> limitQueue \<times> change list \<times> error list" where
  "storyLister_step now lq it0 =
     (let (it, logged) = normalize now it0;
          (lq', removedItemIfAny) = add lq it
      in (lq',
          (case removedItemIfAny of
             None \<Rightarrow> []
           | Some removed \<Rightarrow> [\<lparr>Action = changeRemove, Item = removed\<rparr>]) @
          [\<lparr>Action = changeAdd, Item = it\<rparr>],
          logged))"

text \<open>
  \<^verbatim>\<open>storyLister\<close> (lines 366-403) on the items received until the channel is closed,
  each with the reading of the clock when it is handled.
\<close>

fun storyLister ::
  "(int \<times> item) list \<Rightarrow> limitQueue \<Rightarrow> limitQueue \<times> change list \<times> error list" where
  "storyLister [] lq = (lq, [], [])"
| "storyLister ((now, it0) # incoming) lq =
     (case storyLister_step now lq it0 of
        (lq', sent, logged) \<Rightarrow>
          (case storyLister incoming lq' of
             (lq'', sent', logged') \<Rightarrow> (lq'', sent @ sent', logged @ logged')))"

section \<open>Reconciler\<close>

text \<open>
  The two membership loops of \<^verbatim>\<open>storyRemover\<close> (lines 426-431 and 434-439).
\<close>

fun inFileItems :: "int \<Rightarrow> item list \<Rightarrow> bool" where
  "inFileItems k [] = False"
| "inFileItems k (it # fileItems) = (if k = ID it then True else inFileItems k fileItems)"

fun inTopItems :: "int \<Rightarrow> int list \<Rightarrow> bool" where
  "inTopItems k [] = False"
| "inTopItems k (tid # topItems) = (if tid = k then True else inTopItems k topItems)"

text \<open>
  The switch of lines 423-440: an item tagged as a file item is looked up in the items
  of the file, every other item in the remote ranking.
\<close>

definition stillAtTop :: "int list \<Rightarrow> item list \<Rightarrow> int \<Rightarrow> item \<Rightarrow> bool" where
  "stillAtTop topItems fileItems k it =
     (if From it = itemFromFile then inFileItems k fileItems else inTopItems k topItems)"

text \<open>The condition of line 442.\<close>

definition evictable :: "int list \<Rightarrow> item list \<Rightarrow> int \<Rightarrow> int \<Rightarrow> item \<Rightarrow> bool" where
  "evictable topItems fileItems now k it \<longleftrightarrow>
     \<not> stillAtTop topItems fileItems k it \<and> Seconds (Since now (Added it)) > real_of_int eightHrs"

text \<open>
  One iteration of the loop over the store: the key visited, the reading of the clock
  in that iteration and whether the context is cancelled when the iteration starts.
  Go visits the entries of a map in an order of its own choice, so the order of the
  visits is an input.
\<close>

record visit =
  vkey :: int
  vnow :: int
  vcancelled :: bool

text \<open>
  The loop of lines 418-450, under the lock. A cancelled context ends the pass. A key
  with no entry is not visited by Go's \<^verbatim>\<open>range\<close>; the model skips it. An evictable item
  is sent on \<^verbatim>\<open>changeCh\<close> as removed, then removed from the tracker.
\<close>

fun sweep ::
  "int list \<Rightarrow> item list \<Rightarrow> visit list \<Rightarrow> limitQueue \<Rightarrow> limitQueue \<times> change list" where
  "sweep topItems fileItems [] lq = (lq, [])"
| "sweep topItems fileItems (v # vs) lq =
     (if vcancelled v then (lq, [])
      else
        (case store lq (vkey v) of
           None \<Rightarrow> sweep topItems fileItems vs lq
         | Some it \<Rightarrow>
             if evictable topItems fileItems (vnow v) (vkey v) it
             then (fst (sweep topItems fileItems vs (remove lq (vkey v))),
                   \<lparr>Action = changeRemove, Item = it\<rparr> #
                   snd (sweep topItems fileItems vs (remove lq (vkey v))))
             else sweep topItems fileItems vs lq))"

text \<open>
  Whether a visit evicts, on a given tracker: the key has an entry and the entry is
  evictable at the time of the visit.
\<close>

definition evicts :: "int list \<Rightarrow> item list \<Rightarrow> limitQueue \<Rightarrow> visit \<Rightarrow> bool" where
  "evicts topItems fileItems lq v =
     (case store lq (vkey v) of
        None \<Rightarrow> False
      | Some it \<Rightarrow> evictable topItems fileItems (vnow v) (vkey v) it)"

text \<open>
  \<^verbatim>\<open>storyRemover\<close> (lines 405-452): the returned error, the new tracker and the changes
  sent. A failure of either fetch ends the pass before the tracker is touched.
\<close>

definition storyRemover ::
  "error + int list \<Rightarrow> error + item list \<Rightarrow> visit list \<Rightarrow> limitQueue \<Rightarrow>
   error option \<times> limitQueue \<times> change list" where
  "storyRemover resp decoded visits lq =
     (case fetchTopStories resp frontPageNumArticles of
        Inl err \<Rightarrow> (Some err, lq, [])
      | Inr topItems \<Rightarrow>
          (case fetchStoriesFromFile decoded of
             Inl err \<Rightarrow> (Some err, lq, [])
           | Inr fileItems \<Rightarrow>
               (None, sweep topItems fileItems visits lq)))"

section \<open>Properties of the tracker\<close>

lemma lq_inv_distinct: "lq_inv lq \<Longrightarrow> distinct (keys lq)"
  by (metis card_distinct lq_inv_def)

lemma lq_invI:
  assumes "distinct (keys lq)" and "set (keys lq) = dom (store lq)"
    and "length (keys lq) \<le> limit lq"
  shows "lq_inv lq"
  using assms distinct_card[of "keys lq"] by (simp add: lq_inv_def)

lemma lq_inv_length: "lq_inv lq \<Longrightarrow> length (keys lq) \<le> limit lq"
  by (simp add: lq_inv_def)

lemma lq_inv_dom: "lq_inv lq \<Longrightarrow> set (keys lq) = dom (store lq)"
  by (simp add: lq_inv_def)

lemma lq_inv_queue: "lq_inv queue"
  by (simp add: lq_inv_def queue_def)

lemma add_limit: "limit (fst (add lq it)) = limit lq"
  by (simp add: add_def Let_def split: list.splits)

lemma add_present:
  assumes "store lq (ID it) \<noteq> None"
  shows "add lq it = (lq\<lparr>store := (store lq)(ID it \<mapsto> it)\<rparr>, None)"
  using assms by (simp add: add_def)

lemma add_new_fits:
  assumes "store lq (ID it) = None" and "length (keys lq) < limit lq"
  shows "add lq it = (lq\<lparr>keys := keys lq @ [ID it], store := (store lq)(ID it \<mapsto> it)\<rparr>, None)"
  using assms by (simp add: add_def Let_def)

lemma add_new_full:
  assumes "store lq (ID it) = None" and "limit lq \<le> length (keys lq)"
    and "keys lq @ [ID it] = k # ks"
  shows "add lq it =
           (lq\<lparr>keys := ks, store := ((store lq)(ID it \<mapsto> it))(k := None)\<rparr>,
            ((store lq)(ID it \<mapsto> it)) k)"
proof -
  have "length (k # ks) = Suc (length (keys lq))"
    using arg_cong[OF assms(3), of length] by simp
  with assms(2) have "limit lq < Suc (length ks)"
    by simp
  with assms(1) show ?thesis
    unfolding add_def Let_def assms(3) by simp
qed

lemma add_preserves_inv:
  assumes "lq_inv lq"
  shows "lq_inv (fst (add lq it))"
proof (cases "store lq (ID it) = None")
  case False
  then have "dom ((store lq)(ID it \<mapsto> it)) = dom (store lq)"
    by auto
  with assms False show ?thesis
    by (simp add: add_present lq_inv_def)
next
  case new: True
  have dist: "distinct (keys lq)" and dom: "set (keys lq) = dom (store lq)"
    and len: "length (keys lq) \<le> limit lq"
    using assms by (simp_all add: lq_inv_distinct lq_inv_dom lq_inv_length)
  from new dom have fresh: "ID it \<notin> set (keys lq)"
    by (simp add: domIff)
  show ?thesis
  proof (cases "length (keys lq) < limit lq")
    case True
    show ?thesis
      unfolding add_new_fits[OF new True]
      using dist dom fresh True by (intro lq_invI) auto
  next
    case False
    with len have full: "limit lq \<le> length (keys lq)"
      by simp
    obtain k ks where split: "keys lq @ [ID it] = k # ks"
      by (cases "keys lq") auto
    have d: "distinct (k # ks)" and s: "set (k # ks) = insert (ID it) (dom (store lq))"
      using dist dom fresh by (simp_all flip: split)
    have l: "length ks = length (keys lq)"
      using arg_cong[OF split, of length] by simp
    show ?thesis
      unfolding add_new_full[OF new full split]
      using d s l len by (intro lq_invI) auto
  qed
qed

lemma remove_preserves_inv:
  assumes "lq_inv lq"
  shows "lq_inv (remove lq k)"
proof -
  have dist: "distinct (keys lq)" and dom: "set (keys lq) = dom (store lq)"
    and len: "length (keys lq) \<le> limit lq"
    using assms by (simp_all add: lq_inv_distinct lq_inv_dom lq_inv_length)
  have "length (remove1 k (keys lq)) \<le> length (keys lq)"
    by (simp add: length_remove1)
  with dist dom len show ?thesis
    unfolding remove_def by (intro lq_invI) auto
qed

lemma add_all_preserves_inv: "lq_inv lq \<Longrightarrow> lq_inv (add_all lq its)"
  by (induction its arbitrary: lq) (simp_all add: add_preserves_inv)

lemma add_all_limit: "limit (add_all lq its) = limit lq"
  by (induction its arbitrary: lq) (simp_all add: add_limit)

text \<open>
  Claim C1. Starting from the tracker that \<^verbatim>\<open>main\<close> creates (capacity 300, no keys, an
  empty store), after each call of any sequence of \<^verbatim>\<open>add\<close> calls (that is, after every
  prefix \<open>take n its\<close> of the sequence) the store holds at most 300 items, the key
  sequence is as long as the store has entries, and the keys are exactly the IDs with a
  store entry.
\<close>

theorem tracker_capacity_invariant:
  "card (dom (store (add_all queue (take n its)))) \<le> 300 \<and>
   length (keys (add_all queue (take n its))) = card (dom (store (add_all queue (take n its)))) \<and>
   set (keys (add_all queue (take n its))) = dom (store (add_all queue (take n its)))"
proof -
  have "lq_inv (add_all queue (take n its))"
    by (rule add_all_preserves_inv) (rule lq_inv_queue)
  moreover have "limit (add_all queue (take n its)) = 300"
    by (simp add: add_all_limit queue_def humanTrackingLimit_def)
  ultimately show ?thesis
    by (simp add: lq_inv_def)
qed

text \<open>
  Claim C2. Eviction is first-in, first-out. With capacity 2, adding items with the IDs
  1, 2 and 3 (whatever their other fields) makes the third call return the item with ID
  1 and leaves exactly the IDs 2 and 3, in that order. In general, when the ID is new
  and appending it makes the size exceed the capacity, the key at index 0 of the
  appended key sequence and its item are removed, and that item is returned.
\<close>

theorem add_fifo_eviction:
  "(snd (add (add_all \<lparr>limit = 2, keys = [], store = Map.empty\<rparr>
               [(a::item)\<lparr>ID := 1\<rparr>, (b::item)\<lparr>ID := 2\<rparr>])
          ((c::item)\<lparr>ID := 3\<rparr>)) = Some (a\<lparr>ID := 1\<rparr>) \<and>
    keys (add_all \<lparr>limit = 2, keys = [], store = Map.empty\<rparr>
          [a\<lparr>ID := 1\<rparr>, b\<lparr>ID := 2\<rparr>, c\<lparr>ID := 3\<rparr>]) = [2, 3] \<and>
    dom (store (add_all \<lparr>limit = 2, keys = [], store = Map.empty\<rparr>
          [a\<lparr>ID := 1\<rparr>, b\<lparr>ID := 2\<rparr>, c\<lparr>ID := 3\<rparr>])) = {2, 3}) \<and>
   (\<forall>lq (it::item). lq_inv lq \<and> store lq (ID it) = None \<and> limit lq < length (keys lq @ [ID it]) \<longrightarrow>
      (\<exists>k ks old.
         keys lq @ [ID it] = k # ks \<and>
         ((store lq)(ID it \<mapsto> it)) k = Some old \<and>
         add lq it = (lq\<lparr>keys := ks, store := ((store lq)(ID it \<mapsto> it))(k := None)\<rparr>, Some old)))"
proof (intro conjI allI impI)
  let ?q0 = "\<lparr>limit = 2, keys = [], store = Map.empty\<rparr> :: limitQueue"
  let ?a = "a\<lparr>ID := 1\<rparr>" and ?b = "b\<lparr>ID := 2\<rparr>" and ?c = "c\<lparr>ID := 3\<rparr>"
  have q2: "add_all ?q0 [?a, ?b] = \<lparr>limit = 2, keys = [1, 2], store = [1 \<mapsto> ?a, 2 \<mapsto> ?b]\<rparr>"
    by (simp add: add_def)
  have q3: "add \<lparr>limit = 2, keys = [1, 2], store = [1 \<mapsto> ?a, 2 \<mapsto> ?b]\<rparr> ?c =
              (\<lparr>limit = 2, keys = [2, 3], store = [1 \<mapsto> ?a, 2 \<mapsto> ?b, 3 \<mapsto> ?c](1 := None)\<rparr>, Some ?a)"
    by (simp add: add_def)
  show "snd (add (add_all ?q0 [?a, ?b]) ?c) = Some ?a"
    unfolding q2 q3 by simp
  have all3: "add_all ?q0 [?a, ?b, ?c] = fst (add (add_all ?q0 [?a, ?b]) ?c)"
    by simp
  show "keys (add_all ?q0 [?a, ?b, ?c]) = [2, 3]"
    unfolding all3 q2 q3 by simp
  show "dom (store (add_all ?q0 [?a, ?b, ?c])) = {2, 3}"
    unfolding all3 q2 q3 by auto
next
  fix lq and it :: item
  assume h: "lq_inv lq \<and> store lq (ID it) = None \<and> limit lq < length (keys lq @ [ID it])"
  then have inv: "lq_inv lq" and new: "store lq (ID it) = None"
    and full: "limit lq \<le> length (keys lq)"
    by simp_all
  obtain k ks where split: "keys lq @ [ID it] = k # ks"
    by (cases "keys lq") auto
  then have "k \<in> set (keys lq) \<or> k = ID it"
    by (cases "keys lq") auto
  with lq_inv_dom[OF inv] have "k \<in> dom ((store lq)(ID it \<mapsto> it))"
    by auto
  then obtain old where old: "((store lq)(ID it \<mapsto> it)) k = Some old"
    by blast
  from add_new_full[OF new full split] old split
  show "\<exists>k ks old.
         keys lq @ [ID it] = k # ks \<and>
         ((store lq)(ID it \<mapsto> it)) k = Some old \<and>
         add lq it = (lq\<lparr>keys := ks, store := ((store lq)(ID it \<mapsto> it))(k := None)\<rparr>, Some old)"
    by auto
qed

text \<open>
  A full tracker of capacity 2 that holds the IDs 1 and 2: adding an item with ID 3
  returns the item stored under the oldest key 1 and leaves the keys 2, 3.
\<close>

theorem add_fifo_eviction_witness:
  "snd (add \<lparr>limit = 2, keys = [1, 2],
             store = [1 \<mapsto> \<lparr>ID = 1, URL = ''a'', Added = 5, Domain_f = [], From = [], DiscussLink = []\<rparr>,
                      2 \<mapsto> \<lparr>ID = 2, URL = ''b'', Added = 6, Domain_f = [], From = [], DiscussLink = []\<rparr>]\<rparr>
            \<lparr>ID = 3, URL = ''c'', Added = 7, Domain_f = [], From = [], DiscussLink = []\<rparr>)
     = Some \<lparr>ID = 1, URL = ''a'', Added = 5, Domain_f = [], From = [], DiscussLink = []\<rparr> \<and>
   keys (fst (add \<lparr>limit = 2, keys = [1, 2],
             store = [1 \<mapsto> \<lparr>ID = 1, URL = ''a'', Added = 5, Domain_f = [], From = [], DiscussLink = []\<rparr>,
                      2 \<mapsto> \<lparr>ID = 2, URL = ''b'', Added = 6, Domain_f = [], From = [], DiscussLink = []\<rparr>]\<rparr>
            \<lparr>ID = 3, URL = ''c'', Added = 7, Domain_f = [], From = [], DiscussLink = []\<rparr>))
     = [2, 3]"
proof -
  let ?i1 = "\<lparr>ID = 1, URL = ''a'', Added = 5, Domain_f = [], From = [], DiscussLink = []\<rparr>"
  let ?i2 = "\<lparr>ID = 2, URL = ''b'', Added = 6, Domain_f = [], From = [], DiscussLink = []\<rparr>"
  let ?i3 = "\<lparr>ID = 3, URL = ''c'', Added = 7, Domain_f = [], From = [], DiscussLink = []\<rparr>"
  let ?q = "\<lparr>limit = 2, keys = [1, 2], store = [1 \<mapsto> ?i1, 2 \<mapsto> ?i2]\<rparr>"
  have "dom [1 \<mapsto> ?i1, (2::int) \<mapsto> ?i2] = {1, 2}"
    by auto
  then have inv: "lq_inv ?q"
    by (simp add: lq_inv_def)
  have pre: "lq_inv ?q \<and> store ?q (ID ?i3) = None \<and> limit ?q < length (keys ?q @ [ID ?i3])"
    using inv by simp
  from add_fifo_eviction[THEN conjunct2, rule_format, OF pre]
  obtain k ks old where "keys ?q @ [ID ?i3] = k # ks"
    and "((store ?q)(ID ?i3 \<mapsto> ?i3)) k = Some old"
    and "add ?q ?i3 = (?q\<lparr>keys := ks, store := ((store ?q)(ID ?i3 \<mapsto> ?i3))(k := None)\<rparr>, Some old)"
    by blast
  then show ?thesis
    by auto
qed

text \<open>
  Claim C3. When the ID of the item is already present, \<^verbatim>\<open>add\<close> stores the new item
  under that ID (so the stored item has the new item's fields), leaves the key sequence,
  the capacity and every other store entry as they were, and returns nothing removed:
  no eviction happens in that call.
\<close>

theorem add_existing_overwrites:
  assumes "store lq (ID it) \<noteq> None"
  shows "snd (add lq it) = None \<and>
         keys (fst (add lq it)) = keys lq \<and>
         limit (fst (add lq it)) = limit lq \<and>
         store (fst (add lq it)) = (store lq)(ID it \<mapsto> it) \<and>
         dom (store (fst (add lq it))) = dom (store lq)"
proof -
  have "dom ((store lq)(ID it \<mapsto> it)) = dom (store lq)"
    using assms by auto
  then show ?thesis
    by (simp add: add_present[OF assms])
qed

text \<open>
  The example of the specification: an item is added to the empty tracker and then
  added again with the same ID and another URL. The second call returns nothing, the
  keys are still the one ID, and the stored item is the second one.
\<close>

theorem add_existing_overwrites_witness:
  "store (fst (add queue \<lparr>ID = 7, URL = ''http://a.example/1'', Added = 5, Domain_f = [], From = [], DiscussLink = []\<rparr>)) 7 \<noteq> None \<and>
   snd (add (fst (add queue \<lparr>ID = 7, URL = ''http://a.example/1'', Added = 5, Domain_f = [], From = [], DiscussLink = []\<rparr>))
            \<lparr>ID = 7, URL = ''http://b.example/2'', Added = 5, Domain_f = [], From = [], DiscussLink = []\<rparr>) = None \<and>
   keys (fst (add (fst (add queue \<lparr>ID = 7, URL = ''http://a.example/1'', Added = 5, Domain_f = [], From = [], DiscussLink = []\<rparr>))
            \<lparr>ID = 7, URL = ''http://b.example/2'', Added = 5, Domain_f = [], From = [], DiscussLink = []\<rparr>)) = [7] \<and>
   store (fst (add (fst (add queue \<lparr>ID = 7, URL = ''http://a.example/1'', Added = 5, Domain_f = [], From = [], DiscussLink = []\<rparr>))
            \<lparr>ID = 7, URL = ''http://b.example/2'', Added = 5, Domain_f = [], From = [], DiscussLink = []\<rparr>)) 7
     = Some \<lparr>ID = 7, URL = ''http://b.example/2'', Added = 5, Domain_f = [], From = [], DiscussLink = []\<rparr>"
proof -
  let ?i1 = "\<lparr>ID = 7, URL = ''http://a.example/1'', Added = 5, Domain_f = [], From = [], DiscussLink = []\<rparr>"
  let ?i2 = "\<lparr>ID = 7, URL = ''http://b.example/2'', Added = 5, Domain_f = [], From = [], DiscussLink = []\<rparr>"
  have q1: "fst (add queue ?i1) = \<lparr>limit = 300, keys = [7], store = [7 \<mapsto> ?i1]\<rparr>"
    by (simp add: add_def queue_def humanTrackingLimit_def)
  have pre: "store (fst (add queue ?i1)) (ID ?i2) \<noteq> None"
    unfolding q1 by simp
  from add_existing_overwrites[OF pre] pre show ?thesis
    unfolding q1 by simp
qed

section \<open>Properties of the source fetchers\<close>

lemma fetchTopStories_error: "fetchTopStories (Inl err) limit_arg = Inl err"
  by (simp add: fetchTopStories_def)

lemma fetchTopStories_negative:
  "limit_arg < 0 \<Longrightarrow> fetchTopStories (Inr items) limit_arg = Inl SliceBoundsPanic"
  by (simp add: fetchTopStories_def)

text \<open>
  Claim C9. For a desired count \<open>limit_arg\<close> (a count: not negative) and a decoded list
  of IDs, \<^verbatim>\<open>fetchTopStories\<close> returns the first \<open>min limit_arg (length items)\<close> IDs, in
  the order of the list: the whole list when it is shorter than the count, and never
  more than the count.
\<close>

theorem fetchTopStories_truncates:
  assumes "0 \<le> limit_arg"
  shows "fetchTopStories (Inr items) limit_arg = Inr (take (min (nat limit_arg) (length items)) items) \<and>
         length (take (min (nat limit_arg) (length items)) items) = min (nat limit_arg) (length items) \<and>
         (length items < nat limit_arg \<longrightarrow> fetchTopStories (Inr items) limit_arg = Inr items)"
proof -
  have "fetchTopStories (Inr items) limit_arg = Inr (take (min (nat limit_arg) (length items)) items)"
  proof (cases "int (length items) < limit_arg")
    case True
    then have "min (nat limit_arg) (length items) = length items"
      by linarith
    with True show ?thesis
      by (simp add: fetchTopStories_def)
  next
    case False
    then have "min (nat limit_arg) (length items) = nat limit_arg"
      by linarith
    with False assms show ?thesis
      by (simp add: fetchTopStories_def)
  qed
  then show ?thesis
    by auto
qed

text \<open>
  Five IDs with the count 2 give the first two; three IDs with the count 30 of the
  front page give all three.
\<close>

theorem fetchTopStories_truncates_witness:
  "fetchTopStories (Inr [11, 12, 13, 14, 15]) 2 = Inr [11, 12] \<and>
   fetchTopStories (Inr [11, 12, 13]) frontPageNumArticles = Inr [11, 12, 13]"
proof -
  have a: "(0::int) \<le> 2" and b: "0 \<le> frontPageNumArticles"
    by (simp_all add: frontPageNumArticles_def)
  from fetchTopStories_truncates[OF a, of "[11, 12, 13, 14, 15]"]
    fetchTopStories_truncates[OF b, of "[11, 12, 13]"]
  show ?thesis
    by (simp add: frontPageNumArticles_def)
qed

section \<open>Properties of the domain derivation\<close>

text \<open>
  Claim C4 as stated does not hold: for the link \<^verbatim>\<open>example.com/x\<close>, which has no scheme
  and does not start with two slashes, \<^verbatim>\<open>url.Parse\<close> puts the whole text into the path
  and leaves the host empty, so the derived domain is the empty string and not
  \<^verbatim>\<open>example.com\<close>.
\<close>

theorem urlToDomain_schemeless_counterexample:
  "urlToDomain ''example.com/x'' = Inr [] \<and> urlToDomain ''example.com/x'' \<noteq> Inr ''example.com''"
  by code_simp

text \<open>
  Claim C4, amended. \<^verbatim>\<open>urlToDomain\<close> yields \<^verbatim>\<open>example.com\<close> for
  \<^verbatim>\<open>https://www.example.com/x\<close>; for \<^verbatim>\<open>example.com/x\<close> it yields the empty string, without
  an error; and deriving the domain twice from the same link yields the same value.
\<close>

theorem urlToDomain_examples:
  "urlToDomain ''https://www.example.com/x'' = Inr ''example.com'' \<and>
   urlToDomain ''example.com/x'' = Inr [] \<and>
   (\<forall>link. urlToDomain link = urlToDomain link)"
proof (intro conjI allI)
  show "urlToDomain ''https://www.example.com/x'' = Inr ''example.com''"
    by code_simp
  show "urlToDomain ''example.com/x'' = Inr []"
    by code_simp
  show "urlToDomain link = urlToDomain link" for link
    by (rule refl)
qed

section \<open>Properties of the ingestion consumer\<close>

lemma normalize_ID: "ID (fst (normalize now it0)) = ID it0"
  by (simp add: normalize_def Let_def split: sum.splits)

lemma normalize_From: "From (fst (normalize now it0)) = From it0"
  by (simp add: normalize_def Let_def split: sum.splits)

lemma normalize_URL: "URL (fst (normalize now it0)) = URL it0"
  by (simp add: normalize_def Let_def split: sum.splits)

lemma normalize_DiscussLink:
  "DiscussLink (fst (normalize now it0)) =
     (if From it0 \<noteq> itemFromFile then Sprintf hnPostLink (ID it0) else DiscussLink it0)"
  by (simp add: normalize_def Let_def split: sum.splits)

lemma normalize_error:
  assumes "Domain_f it0 = []" and "urlToDomain (URL it0) = Inl err"
  shows "Domain_f (fst (normalize now it0)) = [] \<and> snd (normalize now it0) = [err]"
  using assms by (simp add: normalize_def Let_def)

lemma storyLister_step_eq:
  "storyLister_step now lq it0 =
     (fst (add lq (fst (normalize now it0))),
      (case snd (add lq (fst (normalize now it0))) of
         None \<Rightarrow> []
       | Some removed \<Rightarrow> [\<lparr>Action = changeRemove, Item = removed\<rparr>]) @
      [\<lparr>Action = changeAdd, Item = fst (normalize now it0)\<rparr>],
      snd (normalize now it0))"
  by (simp add: storyLister_step_def split_def Let_def)

lemma storyLister_append:
  "storyLister (xs @ ys) lq =
     (fst (storyLister ys (fst (storyLister xs lq))),
      fst (snd (storyLister xs lq)) @ fst (snd (storyLister ys (fst (storyLister xs lq)))),
      snd (snd (storyLister xs lq)) @ snd (snd (storyLister ys (fst (storyLister xs lq)))))"
  by (induction xs arbitrary: lq) (auto split: prod.splits)

lemma add_stores:
  assumes "lq_inv lq" and "0 < limit lq"
  shows "store (fst (add lq it)) (ID it) = Some it"
proof (cases "store lq (ID it) = None")
  case False
  then show ?thesis
    by (simp add: add_present)
next
  case new: True
  show ?thesis
  proof (cases "length (keys lq) < limit lq")
    case True
    then show ?thesis
      by (simp add: add_new_fits[OF new])
  next
    case False
    then have full: "limit lq \<le> length (keys lq)"
      by simp
    with assms(2) obtain k ks where ks: "keys lq = k # ks"
      by (cases "keys lq") auto
    then have "k \<in> dom (store lq)"
      using lq_inv_dom[OF assms(1)] by auto
    with new have "k \<noteq> ID it"
      by auto
    moreover have "keys lq @ [ID it] = k # (ks @ [ID it])"
      by (simp add: ks)
    ultimately show ?thesis
      by (simp add: add_new_full[OF new full])
  qed
qed

lemma urlToDomain_example_com: "urlToDomain ''https://www.example.com/x'' = Inr ''example.com''"
  by code_simp

lemma urlToDomain_missing_scheme: "urlToDomain '':bad'' = Inl MissingProtocolScheme"
  by code_simp

lemma decimal_digit: "n < 10 \<Longrightarrow> decimal n = [''0123456789'' ! n]"
  by (simp add: decimal.simps[of n])

lemma Sprintf_hnPostLink: "Sprintf hnPostLink n = ''https://news.ycombinator.com/item?id='' @ Sprintf_d n"
  by (simp add: hnPostLink_def)

text \<open>
  Claim C5. When the \<^verbatim>\<open>add\<close> of an ingestion evicts an item, the changes sent by that
  call are the removal of the evicted item and then the addition of the ingested item,
  and they appear in this order, one after the other, in the stream of changes of the
  whole run of \<^verbatim>\<open>storyLister\<close>, after the changes of the earlier ingestions.
\<close>

theorem removal_before_addition:
  assumes "storyLister earlier lq0 = (lq, sent, logged)"
    and "snd (add lq (fst (normalize now it0))) = Some evicted"
  shows "fst (snd (storyLister_step now lq it0)) =
           [\<lparr>Action = changeRemove, Item = evicted\<rparr>,
            \<lparr>Action = changeAdd, Item = fst (normalize now it0)\<rparr>] \<and>
         (\<exists>afterwards.
            fst (snd (storyLister (earlier @ (now, it0) # later) lq0)) =
              sent @
              [\<lparr>Action = changeRemove, Item = evicted\<rparr>,
               \<lparr>Action = changeAdd, Item = fst (normalize now it0)\<rparr>] @
              afterwards)"
proof -
  have step: "fst (snd (storyLister_step now lq it0)) =
           [\<lparr>Action = changeRemove, Item = evicted\<rparr>,
            \<lparr>Action = changeAdd, Item = fst (normalize now it0)\<rparr>]"
    by (simp add: storyLister_step_eq assms(2))
  have "fst (snd (storyLister ((now, it0) # later) lq)) =
          fst (snd (storyLister_step now lq it0)) @
          fst (snd (storyLister later (fst (storyLister_step now lq it0))))"
    by (simp split: prod.splits)
  then have "fst (snd (storyLister (earlier @ (now, it0) # later) lq0)) =
          sent @ fst (snd (storyLister_step now lq it0)) @
          fst (snd (storyLister later (fst (storyLister_step now lq it0))))"
    by (simp add: storyLister_append[of earlier] assms(1))
  with step show ?thesis
    by simp
qed

text \<open>
  A full tracker of capacity 1 that holds the ID 1; a remote story with the ID 2 is
  ingested at second 1000. The changes sent are the removal of the item 1 and then the
  addition of the normalized item 2.
\<close>

theorem removal_before_addition_witness:
  "fst (snd (storyLister_step 1000000000000
       \<lparr>limit = 1, keys = [1],
        store = [1 \<mapsto> \<lparr>ID = 1, URL = [], Added = 7, Domain_f = ''a.com'', From = ''file'', DiscussLink = []\<rparr>]\<rparr>
       \<lparr>ID = 2, URL = ''https://www.example.com/x'', Added = 0, Domain_f = [], From = [], DiscussLink = []\<rparr>)) =
     [\<lparr>Action = changeRemove,
       Item = \<lparr>ID = 1, URL = [], Added = 7, Domain_f = ''a.com'', From = ''file'', DiscussLink = []\<rparr>\<rparr>,
      \<lparr>Action = changeAdd,
       Item = \<lparr>ID = 2, URL = ''https://www.example.com/x'', Added = 1000, Domain_f = ''example.com'',
               From = [], DiscussLink = ''https://news.ycombinator.com/item?id=2''\<rparr>\<rparr>]"
proof -
  let ?i1 = "\<lparr>ID = 1, URL = [], Added = 7, Domain_f = ''a.com'', From = ''file'', DiscussLink = []\<rparr>"
  let ?i2 = "\<lparr>ID = 2, URL = ''https://www.example.com/x'', Added = 0, Domain_f = [], From = [], DiscussLink = []\<rparr>"
  let ?n2 = "\<lparr>ID = 2, URL = ''https://www.example.com/x'', Added = 1000, Domain_f = ''example.com'',
               From = [], DiscussLink = ''https://news.ycombinator.com/item?id=2''\<rparr>"
  let ?lq = "\<lparr>limit = 1, keys = [1], store = [1 \<mapsto> ?i1]\<rparr>"
  have n: "fst (normalize 1000000000000 ?i2) = ?n2"
    by (simp add: normalize_def Unix_def urlToDomain_example_com itemFromFile_def
        Sprintf_hnPostLink Sprintf_d_def decimal_digit)
  have a: "storyLister [] ?lq = (?lq, [], [])"
    by simp
  have b: "snd (add ?lq (fst (normalize 1000000000000 ?i2))) = Some ?i1"
    unfolding n by (simp add: add_def)
  from removal_before_addition[OF a b, THEN conjunct1] show ?thesis
    unfolding n by simp
qed

text \<open>
  Claim C10. When the domain of an incoming item is to be derived (its \<^verbatim>\<open>Domain\<close> is
  empty) and \<^verbatim>\<open>urlToDomain\<close> returns an error, the error is logged and nothing else
  changes: the item, with its \<^verbatim>\<open>Domain\<close> as it was, is handed to \<^verbatim>\<open>add\<close>, is in the
  tracker afterwards (the tracker satisfies its invariant and has a positive capacity),
  and its addition is the last change sent by the call.
\<close>

theorem domain_error_does_not_abort:
  assumes "Domain_f it0 = []" and "urlToDomain (URL it0) = Inl err"
    and "lq_inv lq" and "0 < limit lq"
  shows "Domain_f (fst (normalize now it0)) = Domain_f it0 \<and>
         snd (snd (storyLister_step now lq it0)) = [err] \<and>
         fst (storyLister_step now lq it0) = fst (add lq (fst (normalize now it0))) \<and>
         store (fst (storyLister_step now lq it0)) (ID it0) = Some (fst (normalize now it0)) \<and>
         last (fst (snd (storyLister_step now lq it0))) =
           \<lparr>Action = changeAdd, Item = fst (normalize now it0)\<rparr>"
proof -
  have "store (fst (add lq (fst (normalize now it0)))) (ID (fst (normalize now it0))) =
          Some (fst (normalize now it0))"
    by (rule add_stores[OF assms(3,4)])
  then have "store (fst (storyLister_step now lq it0)) (ID it0) = Some (fst (normalize now it0))"
    by (simp add: storyLister_step_eq normalize_ID)
  with normalize_error[OF assms(1,2), of now] assms(1) show ?thesis
    by (simp add: storyLister_step_eq)
qed

text \<open>
  A remote story whose link \<^verbatim>\<open>:bad\<close> does not parse (the colon comes first) is ingested
  into the empty tracker at second 1000: the error is logged, the item is stored with
  an empty \<^verbatim>\<open>Domain\<close>, and its addition is sent.
\<close>

theorem domain_error_does_not_abort_witness:
  "urlToDomain '':bad'' = Inl MissingProtocolScheme \<and>
   snd (snd (storyLister_step 1000000000000 queue
      \<lparr>ID = 9, URL = '':bad'', Added = 0, Domain_f = [], From = [], DiscussLink = []\<rparr>)) =
     [MissingProtocolScheme] \<and>
   store (fst (storyLister_step 1000000000000 queue
      \<lparr>ID = 9, URL = '':bad'', Added = 0, Domain_f = [], From = [], DiscussLink = []\<rparr>)) 9 =
     Some \<lparr>ID = 9, URL = '':bad'', Added = 1000, Domain_f = [], From = [],
            DiscussLink = ''https://news.ycombinator.com/item?id=9''\<rparr> \<and>
   last (fst (snd (storyLister_step 1000000000000 queue
      \<lparr>ID = 9, URL = '':bad'', Added = 0, Domain_f = [], From = [], DiscussLink = []\<rparr>))) =
     \<lparr>Action = changeAdd,
      Item = \<lparr>ID = 9, URL = '':bad'', Added = 1000, Domain_f = [], From = [],
               DiscussLink = ''https://news.ycombinator.com/item?id=9''\<rparr>\<rparr>"
proof -
  let ?i = "\<lparr>ID = 9, URL = '':bad'', Added = 0, Domain_f = [], From = [], DiscussLink = []\<rparr>"
  have n: "fst (normalize 1000000000000 ?i) =
      \<lparr>ID = 9, URL = '':bad'', Added = 1000, Domain_f = [], From = [],
       DiscussLink = ''https://news.ycombinator.com/item?id=9''\<rparr>"
    by (simp add: normalize_def Unix_def urlToDomain_missing_scheme itemFromFile_def
        Sprintf_hnPostLink Sprintf_d_def decimal_digit)
  have a: "Domain_f ?i = []" and b: "urlToDomain (URL ?i) = Inl MissingProtocolScheme"
    by (simp_all add: urlToDomain_missing_scheme)
  have c: "lq_inv queue"
    by (rule lq_inv_queue)
  have d: "0 < limit queue"
    by (simp add: queue_def humanTrackingLimit_def)
  note t = domain_error_does_not_abort[OF a b c d, of 1000000000000, unfolded n]
  have t2: "snd (snd (storyLister_step 1000000000000 queue ?i)) = [MissingProtocolScheme]"
    using t by blast
  have t4: "store (fst (storyLister_step 1000000000000 queue ?i)) (ID ?i) =
      Some \<lparr>ID = 9, URL = '':bad'', Added = 1000, Domain_f = [], From = [],
            DiscussLink = ''https://news.ycombinator.com/item?id=9''\<rparr>"
    using t by blast
  have t5: "last (fst (snd (storyLister_step 1000000000000 queue ?i))) =
      \<lparr>Action = changeAdd,
       Item = \<lparr>ID = 9, URL = '':bad'', Added = 1000, Domain_f = [], From = [],
                DiscussLink = ''https://news.ycombinator.com/item?id=9''\<rparr>\<rparr>"
    using t by blast
  from t2 t4 t5 show ?thesis
    by (simp add: urlToDomain_missing_scheme)
qed

section \<open>Provenance tags\<close>

lemma topStoriesFetcher_loop_sent:
  "it \<in> set (fst (topStoriesFetcher_loop cancelled bodies i itemIds)) \<Longrightarrow>
     \<exists>k. k \<in> set itemIds \<and> bodies k = Inr it"
proof (induction itemIds arbitrary: i)
  case Nil
  then show ?case by simp
next
  case (Cons itID itemIds)
  show ?case
  proof (cases "cancelled i")
    case True
    with Cons.prems show ?thesis by simp
  next
    case False
    show ?thesis
    proof (cases "bodies itID")
      case (Inl err)
      with False Cons.prems
      have "it \<in> set (fst (topStoriesFetcher_loop cancelled bodies (Suc i) itemIds))"
        by (simp add: fetchItem_def)
      from Cons.IH[OF this] show ?thesis by auto
    next
      case (Inr fetched)
      with False Cons.prems
      have "it = fetched \<or> it \<in> set (fst (topStoriesFetcher_loop cancelled bodies (Suc i) itemIds))"
        by (simp add: fetchItem_def)
      then show ?thesis
      proof
        assume "it = fetched"
        with Inr show ?thesis by auto
      next
        assume "it \<in> set (fst (topStoriesFetcher_loop cancelled bodies (Suc i) itemIds))"
        from Cons.IH[OF this] show ?thesis by auto
      qed
    qed
  qed
qed

text \<open>
  Claim C8 as stated does not hold. A remote story decoded with an empty \<^verbatim>\<open>From\<close> is
  sent by \<^verbatim>\<open>topStoriesFetcher\<close> as it is and stored by \<^verbatim>\<open>storyLister\<close> with its \<^verbatim>\<open>From\<close>
  still empty, which is neither \<^verbatim>\<open>hn\<close> nor \<^verbatim>\<open>file\<close>; and a file item that carries
  another tag, here \<^verbatim>\<open>blog\<close>, is sent with that tag.
\<close>

theorem from_tag_counterexample:
  "fst (snd (topStoriesFetcher (Inr [8]) (\<lambda>i. False)
      (\<lambda>k. Inr \<lparr>ID = 8, URL = [], Added = 0, Domain_f = [], From = [], DiscussLink = []\<rparr>) 30)) =
     [\<lparr>ID = 8, URL = [], Added = 0, Domain_f = [], From = [], DiscussLink = []\<rparr>] \<and>
   map_option From (store (fst (storyLister_step 1000000000000 queue
      \<lparr>ID = 8, URL = [], Added = 0, Domain_f = [], From = [], DiscussLink = []\<rparr>)) 8) = Some [] \<and>
   [] \<noteq> itemFromHN \<and> [] \<noteq> itemFromFile \<and>
   map From (snd (serverInputsToUserFetcher
      (Inr [\<lparr>ID = 3, URL = [], Added = 0, Domain_f = [], From = ''blog'', DiscussLink = []\<rparr>]))) =
     [''blog''] \<and>
   ''blog'' \<noteq> itemFromHN \<and> ''blog'' \<noteq> itemFromFile"
proof -
  let ?i = "\<lparr>ID = 8, URL = [], Added = 0, Domain_f = [], From = [], DiscussLink = []\<rparr>"
  have "store (fst (add queue (fst (normalize 1000000000000 ?i))))
          (ID (fst (normalize 1000000000000 ?i))) = Some (fst (normalize 1000000000000 ?i))"
    by (rule add_stores, rule lq_inv_queue) (simp add: queue_def humanTrackingLimit_def)
  then have "map_option From (store (fst (storyLister_step 1000000000000 queue ?i)) 8) = Some []"
    by (simp add: storyLister_step_eq normalize_ID normalize_From)
  moreover have "fst (snd (topStoriesFetcher (Inr [8]) (\<lambda>i. False) (\<lambda>k. Inr ?i) 30)) = [?i]"
    by (simp add: topStoriesFetcher_def fetchTopStories_def fetchItem_def)
  ultimately show ?thesis
    by (simp add: serverInputsToUserFetcher_def fetchStoriesFromFile_def
        itemFromHN_def itemFromFile_def)
qed

text \<open>
  Claim C8, amended. \<^verbatim>\<open>serverInputsToUserFetcher\<close> tags a file item whose \<^verbatim>\<open>From\<close> is
  empty as \<^verbatim>\<open>file\<close> before sending it and sends every other item with the tag it has;
  \<^verbatim>\<open>topStoriesFetcher\<close> sends each fetched item as it was decoded; \<^verbatim>\<open>storyLister\<close> never
  writes \<^verbatim>\<open>From\<close>, so the item it adds and announces has the tag it came with; and it
  treats every item whose tag is not \<^verbatim>\<open>file\<close>, an unset tag included, as a remote one,
  giving it the link to its discussion.
\<close>

theorem from_tag_handling:
  "(\<forall>items. serverInputsToUserFetcher (Inr items) =
       (None, map (\<lambda>it. if From it = [] then it\<lparr>From := itemFromFile\<rparr> else it) items)) \<and>
   (\<forall>cancelled bodies itemIds it.
       it \<in> set (fst (topStoriesFetcher_loop cancelled bodies 0 itemIds)) \<longrightarrow>
       (\<exists>k. k \<in> set itemIds \<and> bodies k = Inr it)) \<and>
   (\<forall>now lq it0.
       From (fst (normalize now it0)) = From it0 \<and>
       From (Item (last (fst (snd (storyLister_step now lq it0))))) = From it0) \<and>
   (\<forall>now it0. From it0 \<noteq> itemFromFile \<longrightarrow>
       DiscussLink (fst (normalize now it0)) = Sprintf hnPostLink (ID it0))"
proof (intro conjI allI impI)
  show "serverInputsToUserFetcher (Inr items) =
       (None, map (\<lambda>it. if From it = [] then it\<lparr>From := itemFromFile\<rparr> else it) items)" for items
    by (simp add: serverInputsToUserFetcher_def fetchStoriesFromFile_def)
  show "\<exists>k. k \<in> set itemIds \<and> bodies k = Inr it"
    if "it \<in> set (fst (topStoriesFetcher_loop cancelled bodies 0 itemIds))"
    for cancelled bodies itemIds it
    using that by (rule topStoriesFetcher_loop_sent)
  show "From (fst (normalize now it0)) = From it0" for now it0
    by (rule normalize_From)
  show "From (Item (last (fst (snd (storyLister_step now lq it0))))) = From it0" for now lq it0
    by (simp add: storyLister_step_eq normalize_From)
  show "DiscussLink (fst (normalize now it0)) = Sprintf hnPostLink (ID it0)"
    if "From it0 \<noteq> itemFromFile" for now it0
    using that by (simp add: normalize_DiscussLink)
qed

text \<open>
  A remote story with the ID 8 and no tag: the fetcher sends it as decoded, and the
  consumer gives it the discussion link and leaves the tag empty.
\<close>

theorem from_tag_handling_witness:
  "fst (topStoriesFetcher_loop (\<lambda>i. False)
      (\<lambda>k. Inr \<lparr>ID = 8, URL = [], Added = 5, Domain_f = ''a.com'', From = [], DiscussLink = []\<rparr>) 0 [8]) =
     [\<lparr>ID = 8, URL = [], Added = 5, Domain_f = ''a.com'', From = [], DiscussLink = []\<rparr>] \<and>
   DiscussLink (fst (normalize 1000000000000
      \<lparr>ID = 8, URL = [], Added = 5, Domain_f = ''a.com'', From = [], DiscussLink = []\<rparr>)) =
     ''https://news.ycombinator.com/item?id=8'' \<and>
   From (fst (normalize 1000000000000
      \<lparr>ID = 8, URL = [], Added = 5, Domain_f = ''a.com'', From = [], DiscussLink = []\<rparr>)) = []"
proof -
  let ?i = "\<lparr>ID = 8, URL = [], Added = 5, Domain_f = ''a.com'', From = [], DiscussLink = []\<rparr>"
  have sent: "fst (topStoriesFetcher_loop (\<lambda>i. False) (\<lambda>k. Inr ?i) 0 [8]) = [?i]"
    by (simp add: fetchItem_def)
  then have mem: "?i \<in> set (fst (topStoriesFetcher_loop (\<lambda>i. False) (\<lambda>k. Inr ?i) 0 [8]))"
    by simp
  have tag: "From ?i \<noteq> itemFromFile"
    by (simp add: itemFromFile_def)
  note t = from_tag_handling
  note t[THEN conjunct2, THEN conjunct1, rule_format, OF mem]
  moreover have "DiscussLink (fst (normalize 1000000000000 ?i)) = Sprintf hnPostLink (ID ?i)"
    by (rule t[THEN conjunct2, THEN conjunct2, THEN conjunct2, rule_format, OF tag])
  moreover have "From (fst (normalize 1000000000000 ?i)) = From ?i"
    by (rule t[THEN conjunct2, THEN conjunct2, THEN conjunct1, rule_format, THEN conjunct1])
  ultimately show ?thesis
    using sent by (simp add: Sprintf_hnPostLink Sprintf_d_def decimal_digit)
qed

section \<open>Properties of the reconciler\<close>

lemma inFileItems_iff: "inFileItems k fileItems \<longleftrightarrow> k \<in> ID ` set fileItems"
  by (induction fileItems) auto

lemma inTopItems_iff: "inTopItems k topItems \<longleftrightarrow> k \<in> set topItems"
  by (induction topItems) auto

lemma stillAtTop_iff:
  "stillAtTop topItems fileItems k it \<longleftrightarrow>
     (From it = itemFromFile \<and> k \<in> ID ` set fileItems) \<or>
     (From it \<noteq> itemFromFile \<and> k \<in> set topItems)"
  by (simp add: stillAtTop_def inFileItems_iff inTopItems_iff)

lemma int64_in_range:
  assumes "- (2 ^ 63) \<le> x" and "x < 2 ^ 63"
  shows "int64 x = x"
proof -
  have "0 \<le> x + 2 ^ 63" and "x + 2 ^ 63 < 2 ^ 64"
    using assms by simp_all
  then have "(x + 2 ^ 63) mod 2 ^ 64 = x + 2 ^ 63"
    by (rule mod_pos_pos_trivial)
  then show ?thesis
    by (simp add: int64_def)
qed

lemma Since_in_range:
  assumes "- (2 ^ 63) \<le> added" and "added \<le> 2 ^ 63 - 1 - 62135596800"
  shows "Since now added = max (- (2 ^ 63)) (min (2 ^ 63 - 1) (now - added * 1000000000))"
proof -
  have i: "int64 (added + unixToInternal) = added + unixToInternal"
    using assms by (intro int64_in_range) (simp_all add: unixToInternal_def)
  have e: "(now div 1000000000 + unixToInternal - (added + unixToInternal)) * 1000000000 +
      now mod 1000000000 = now - added * 1000000000"
    using div_mult_mod_eq[of now 1000000000] by (simp add: algebra_simps)
  show ?thesis
    unfolding Since_def Let_def i e by (rule refl)
qed

lemma evictable_iff:
  assumes "- (2 ^ 63) \<le> Added it" and "Added it \<le> 2 ^ 63 - 1 - 62135596800"
  shows "evictable topItems fileItems now k it \<longleftrightarrow>
     \<not> stillAtTop topItems fileItems k it \<and> now - Added it * 1000000000 > 8 * 60 * 60 * 1000000000"
  by (auto simp add: evictable_def Seconds_def Since_in_range[OF assms] eightHrs_def field_simps)

lemma Since_wrapped_saturates:
  "Since 1700000000000000000 (2 ^ 63 - 1) = 2 ^ 63 - 1"
  by (simp add: Since_def Let_def int64_def unixToInternal_def)

lemma sweep_takeWhile:
  "sweep topItems fileItems visits lq =
     sweep topItems fileItems (takeWhile (\<lambda>v. \<not> vcancelled v) visits) lq"
  by (induction visits arbitrary: lq) (auto split: option.splits)

lemma store_remove: "store (remove lq k) k' = (if k' = k then None else store lq k')"
  by (simp add: remove_def)

lemma evicts_remove:
  "vkey v \<noteq> k \<Longrightarrow> evicts topItems fileItems (remove lq k) v = evicts topItems fileItems lq v"
  by (simp add: evicts_def store_remove)

lemma sweep_sent:
  assumes "distinct (map vkey visits)" and "list_all (\<lambda>v. \<not> vcancelled v) visits"
  shows "snd (sweep topItems fileItems visits lq) =
           map (\<lambda>v. \<lparr>Action = changeRemove, Item = the (store lq (vkey v))\<rparr>)
             (filter (evicts topItems fileItems lq) visits)"
  using assms
proof (induction visits arbitrary: lq)
  case Nil
  then show ?case by simp
next
  case (Cons v vs)
  have other: "vkey w \<noteq> vkey v" if "w \<in> set vs" for w
    using Cons.prems(1) that by (auto simp add: image_iff)
  have ih: "snd (sweep topItems fileItems vs lq') =
           map (\<lambda>v. \<lparr>Action = changeRemove, Item = the (store lq' (vkey v))\<rparr>)
             (filter (evicts topItems fileItems lq') vs)" for lq'
    using Cons.IH Cons.prems by simp
  have f: "filter (evicts topItems fileItems (remove lq (vkey v))) vs =
           filter (evicts topItems fileItems lq) vs"
    by (rule filter_cong) (simp_all add: evicts_remove other)
  have m: "map (\<lambda>w. \<lparr>Action = changeRemove, Item = the (store (remove lq (vkey v)) (vkey w))\<rparr>)
             (filter (evicts topItems fileItems lq) vs) =
           map (\<lambda>w. \<lparr>Action = changeRemove, Item = the (store lq (vkey w))\<rparr>)
             (filter (evicts topItems fileItems lq) vs)"
    by (rule map_cong) (simp_all add: store_remove other)
  from Cons.prems(2) have nc: "\<not> vcancelled v"
    by simp
  show ?case
  proof (cases "evicts topItems fileItems lq v")
    case True
    then obtain it where "store lq (vkey v) = Some it"
      and "evictable topItems fileItems (vnow v) (vkey v) it"
      by (auto simp add: evicts_def split: option.splits)
    with True nc show ?thesis
      by (simp add: ih f m)
  next
    case False
    then have "store lq (vkey v) = None \<or>
      (\<exists>it. store lq (vkey v) = Some it \<and> \<not> evictable topItems fileItems (vnow v) (vkey v) it)"
      by (auto simp add: evicts_def split: option.splits)
    with False nc show ?thesis
      by (auto simp add: ih)
  qed
qed

lemma sweep_store:
  assumes "distinct (map vkey visits)" and "list_all (\<lambda>v. \<not> vcancelled v) visits"
  shows "store (fst (sweep topItems fileItems visits lq)) k =
           (if k \<in> vkey ` set (filter (evicts topItems fileItems lq) visits) then None
            else store lq k)"
  using assms
proof (induction visits arbitrary: lq k)
  case Nil
  then show ?case by simp
next
  case (Cons v vs)
  have other: "vkey w \<noteq> vkey v" if "w \<in> set vs" for w
    using Cons.prems(1) that by (auto simp add: image_iff)
  have ih: "store (fst (sweep topItems fileItems vs lq')) k' =
           (if k' \<in> vkey ` set (filter (evicts topItems fileItems lq') vs) then None
            else store lq' k')" for lq' k'
    using Cons.IH Cons.prems by simp
  have f: "filter (evicts topItems fileItems (remove lq (vkey v))) vs =
           filter (evicts topItems fileItems lq) vs"
    by (rule filter_cong) (simp_all add: evicts_remove other)
  from Cons.prems(2) have nc: "\<not> vcancelled v"
    by simp
  show ?case
  proof (cases "evicts topItems fileItems lq v")
    case True
    then obtain it where "store lq (vkey v) = Some it"
      and "evictable topItems fileItems (vnow v) (vkey v) it"
      by (auto simp add: evicts_def split: option.splits)
    with True nc show ?thesis
      by (simp add: ih f store_remove)
  next
    case False
    then have "store lq (vkey v) = None \<or>
      (\<exists>it. store lq (vkey v) = Some it \<and> \<not> evictable topItems fileItems (vnow v) (vkey v) it)"
      by (auto simp add: evicts_def split: option.splits)
    with False nc show ?thesis
      by (auto simp add: ih)
  qed
qed

lemma sweep_inv: "lq_inv lq \<Longrightarrow> lq_inv (fst (sweep topItems fileItems visits lq))"
  by (induction visits arbitrary: lq) (auto simp add: remove_preserves_inv split: option.splits)

lemma sweep_keeps:
  assumes "store lq k = Some it" and "stillAtTop topItems fileItems k it"
  shows "store (fst (sweep topItems fileItems visits lq)) k = Some it"
  using assms(1)
proof (induction visits arbitrary: lq)
  case Nil
  then show ?case by simp
next
  case (Cons v vs)
  show ?case
  proof (cases "vkey v = k")
    case True
    with Cons assms(2) show ?thesis
      by (simp add: evictable_def)
  next
    case False
    with Cons.prems have "store (remove lq (vkey v)) k = Some it"
      by (simp add: store_remove)
    with Cons False show ?thesis
      by (simp split: option.splits)
  qed
qed

lemma sweep_keeps_key:
  assumes "store lq k = Some it" and "stillAtTop topItems fileItems k it" and "k \<in> set (keys lq)"
  shows "k \<in> set (keys (fst (sweep topItems fileItems visits lq)))"
  using assms(1,3)
proof (induction visits arbitrary: lq)
  case Nil
  then show ?case by simp
next
  case (Cons v vs)
  show ?case
  proof (cases "vkey v = k")
    case True
    with Cons assms(2) show ?thesis
      by (simp add: evictable_def)
  next
    case False
    with Cons.prems have "store (remove lq (vkey v)) k = Some it" "k \<in> set (keys (remove lq (vkey v)))"
      by (simp_all add: store_remove remove_def)
    with Cons False show ?thesis
      by (simp split: option.splits)
  qed
qed

lemma sweep_sent_removed:
  "c \<in> set (snd (sweep topItems fileItems visits lq)) \<Longrightarrow>
     \<exists>v it. v \<in> set visits \<and> store lq (vkey v) = Some it \<and>
       evictable topItems fileItems (vnow v) (vkey v) it \<and> c = \<lparr>Action = changeRemove, Item = it\<rparr>"
proof (induction visits arbitrary: lq)
  case Nil
  then show ?case by simp
next
  case (Cons v vs)
  show ?case
  proof (cases "vcancelled v")
    case True
    with Cons.prems show ?thesis by simp
  next
    case nc: False
    show ?thesis
    proof (cases "store lq (vkey v)")
      case None
      with nc Cons.prems have "c \<in> set (snd (sweep topItems fileItems vs lq))"
        by simp
      from Cons.IH[OF this] show ?thesis by auto
    next
      case (Some it)
      show ?thesis
      proof (cases "evictable topItems fileItems (vnow v) (vkey v) it")
        case False
        with nc Some Cons.prems have "c \<in> set (snd (sweep topItems fileItems vs lq))"
          by simp
        from Cons.IH[OF this] show ?thesis by auto
      next
        case True
        with nc Some Cons.prems
        have "c = \<lparr>Action = changeRemove, Item = it\<rparr> \<or>
              c \<in> set (snd (sweep topItems fileItems vs (remove lq (vkey v))))"
          by simp
        then show ?thesis
        proof
          assume "c = \<lparr>Action = changeRemove, Item = it\<rparr>"
          with Some True show ?thesis by auto
        next
          assume "c \<in> set (snd (sweep topItems fileItems vs (remove lq (vkey v))))"
          from Cons.IH[OF this] obtain w it' where
            w: "w \<in> set vs" "store (remove lq (vkey v)) (vkey w) = Some it'"
              "evictable topItems fileItems (vnow w) (vkey w) it'"
              "c = \<lparr>Action = changeRemove, Item = it'\<rparr>"
            by blast
          from w(2) have "store lq (vkey w) = Some it'"
            by (simp add: store_remove split: if_splits)
          with w show ?thesis by auto
        qed
      qed
    qed
  qed
qed


lemma storyRemover_Inr:
  assumes "fetchTopStories resp frontPageNumArticles = Inr topItems"
    and "fetchStoriesFromFile decoded = Inr fileItems"
  shows "storyRemover resp decoded visits lq = (None, sweep topItems fileItems visits lq)"
  using assms by (simp add: storyRemover_def)

text \<open>
  Claim C6. In a pass of \<^verbatim>\<open>storyRemover\<close> whose two fetches succeed and that is not
  cancelled, where every key is visited at most once (Go's \<^verbatim>\<open>range\<close> visits each entry of
  the map once) and the \<^verbatim>\<open>Added\<close> of the visited items is a second that \<^verbatim>\<open>time.Unix\<close>
  stores without wrapping, a tracked item is evicted, that is, its entry is gone
  afterwards, if and only if it is not still canonical (an item tagged \<^verbatim>\<open>file\<close> is
  canonical when its key is the ID of an item of the file, every other item when its
  key is in the remote ranking) and, at the time of its visit, the time since \<^verbatim>\<open>Added\<close>
  is more than \<open>8 * 60 * 60\<close> seconds. Entries that are not visited stay. The changes
  sent are the removals of the evicted items, each with the item as the store held it
  before the removal, in the order of the visits; the tracker keeps its invariant. In
  particular, an item whose key is neither in the ranking nor among the IDs of the file
  is evicted by a visit 9 hours after \<^verbatim>\<open>Added\<close> and retained by a visit 1 hour after
  \<^verbatim>\<open>Added\<close>.
\<close>

theorem reconciliation_staleness:
  assumes "fetchTopStories resp frontPageNumArticles = Inr topItems"
    and "fetchStoriesFromFile decoded = Inr fileItems"
    and "distinct (map vkey visits)"
    and "list_all (\<lambda>v. \<not> vcancelled v) visits"
    and "\<forall>v it. v \<in> set visits \<and> store lq (vkey v) = Some it \<longrightarrow>
           - (2 ^ 63) \<le> Added it \<and> Added it \<le> 2 ^ 63 - 1 - 62135596800"
  shows "fst (storyRemover resp decoded visits lq) = None \<and>
         (\<forall>v it. v \<in> set visits \<and> store lq (vkey v) = Some it \<longrightarrow>
            (store (fst (snd (storyRemover resp decoded visits lq))) (vkey v) = None \<longleftrightarrow>
               \<not> ((From it = itemFromFile \<and> vkey v \<in> ID ` set fileItems) \<or>
                  (From it \<noteq> itemFromFile \<and> vkey v \<in> set topItems)) \<and>
               vnow v - Added it * 1000000000 > 8 * 60 * 60 * 1000000000)) \<and>
         (\<forall>k. k \<notin> vkey ` set visits \<longrightarrow>
            store (fst (snd (storyRemover resp decoded visits lq))) k = store lq k) \<and>
         snd (snd (storyRemover resp decoded visits lq)) =
           map (\<lambda>v. \<lparr>Action = changeRemove, Item = the (store lq (vkey v))\<rparr>)
             (filter
                (\<lambda>v. case store lq (vkey v) of
                        None \<Rightarrow> False
                      | Some it \<Rightarrow>
                          \<not> ((From it = itemFromFile \<and> vkey v \<in> ID ` set fileItems) \<or>
                             (From it \<noteq> itemFromFile \<and> vkey v \<in> set topItems)) \<and>
                          vnow v - Added it * 1000000000 > 8 * 60 * 60 * 1000000000)
                visits) \<and>
         (lq_inv lq \<longrightarrow> lq_inv (fst (snd (storyRemover resp decoded visits lq)))) \<and>
         (\<forall>v it. v \<in> set visits \<and> store lq (vkey v) = Some it \<and>
                 vkey v \<notin> set topItems \<and> vkey v \<notin> ID ` set fileItems \<longrightarrow>
            (vnow v = Added it * 1000000000 + 9 * 3600 * 1000000000 \<longrightarrow>
               store (fst (snd (storyRemover resp decoded visits lq))) (vkey v) = None) \<and>
            (vnow v = Added it * 1000000000 + 1 * 3600 * 1000000000 \<longrightarrow>
               store (fst (snd (storyRemover resp decoded visits lq))) (vkey v) = Some it))"
proof -
  let ?stale = "\<lambda>v it.
      \<not> ((From it = itemFromFile \<and> vkey v \<in> ID ` set fileItems) \<or>
         (From it \<noteq> itemFromFile \<and> vkey v \<in> set topItems)) \<and>
      vnow v - Added it * 1000000000 > 8 * 60 * 60 * 1000000000"
  let ?P = "\<lambda>v. case store lq (vkey v) of None \<Rightarrow> False | Some it \<Rightarrow> ?stale v it"
  note run = storyRemover_Inr[OF assms(1,2), of visits lq]
  have range: "- (2 ^ 63) \<le> Added it" "Added it \<le> 2 ^ 63 - 1 - 62135596800"
    if "v \<in> set visits" and "store lq (vkey v) = Some it" for v it
    using assms(5) that by blast+
  have ev: "evicts topItems fileItems lq v \<longleftrightarrow> ?P v" if v: "v \<in> set visits" for v
  proof (cases "store lq (vkey v)")
    case None
    then show ?thesis
      by (simp add: evicts_def)
  next
    case (Some it)
    from evictable_iff[OF range[OF v Some], of topItems fileItems "vnow v" "vkey v"]
    show ?thesis
      by (simp add: evicts_def Some stillAtTop_iff)
  qed
  have flt: "filter (evicts topItems fileItems lq) visits = filter ?P visits"
    by (rule filter_cong) (simp_all add: ev)
  have kept: "store (fst (sweep topItems fileItems visits lq)) k =
           (if k \<in> vkey ` set (filter (evicts topItems fileItems lq) visits) then None
            else store lq k)" for k
    by (rule sweep_store[OF assms(3,4)])
  have inj: "inj_on vkey (set visits)"
    using assms(3) by (simp add: distinct_map)
  have one: "store (fst (sweep topItems fileItems visits lq)) (vkey v) = None \<longleftrightarrow> ?stale v it"
    if v: "v \<in> set visits" and it: "store lq (vkey v) = Some it" for v it
  proof -
    have "vkey v \<in> vkey ` set (filter (evicts topItems fileItems lq) visits) \<longleftrightarrow>
            evicts topItems fileItems lq v"
    proof
      assume "vkey v \<in> vkey ` set (filter (evicts topItems fileItems lq) visits)"
      then obtain w where w: "w \<in> set visits" "evicts topItems fileItems lq w" "vkey v = vkey w"
        by auto
      from inj_onD[OF inj w(3) v w(1)] w(2) show "evicts topItems fileItems lq v"
        by simp
    next
      assume "evicts topItems fileItems lq v"
      with v have "v \<in> set (filter (evicts topItems fileItems lq) visits)"
        by simp
      then show "vkey v \<in> vkey ` set (filter (evicts topItems fileItems lq) visits)"
        by (rule imageI)
    qed
    then have "store (fst (sweep topItems fileItems visits lq)) (vkey v) = None \<longleftrightarrow>
            evicts topItems fileItems lq v"
      by (simp add: kept it)
    with ev[OF v] show ?thesis
      by (simp add: it)
  qed
  have unchanged: "store (fst (sweep topItems fileItems visits lq)) (vkey v) = Some it"
    if v: "v \<in> set visits" and it: "store lq (vkey v) = Some it" and "\<not> ?stale v it" for v it
  proof -
    from one[OF v it] that(3) have "store (fst (sweep topItems fileItems visits lq)) (vkey v) \<noteq> None"
      by blast
    then show ?thesis
      by (simp add: kept it split: if_splits)
  qed
  have other: "store (fst (sweep topItems fileItems visits lq)) k = store lq k"
    if "k \<notin> vkey ` set visits" for k
    using that by (auto simp add: kept)
  show ?thesis
    unfolding run fst_conv snd_conv
  proof (intro conjI allI impI)
    show "None = None" ..
    show "store (fst (sweep topItems fileItems visits lq)) (vkey v) = None \<longleftrightarrow> ?stale v it"
      if "v \<in> set visits \<and> store lq (vkey v) = Some it" for v it
      using that by (intro one) simp_all
    show "store (fst (sweep topItems fileItems visits lq)) k = store lq k"
      if "k \<notin> vkey ` set visits" for k
      using that by (rule other)
    show "snd (sweep topItems fileItems visits lq) =
           map (\<lambda>v. \<lparr>Action = changeRemove, Item = the (store lq (vkey v))\<rparr>) (filter ?P visits)"
      unfolding flt[symmetric] by (rule sweep_sent[OF assms(3,4)])
    show "lq_inv (fst (sweep topItems fileItems visits lq))" if "lq_inv lq"
      using that by (rule sweep_inv)
    show "store (fst (sweep topItems fileItems visits lq)) (vkey v) = None"
      if h: "v \<in> set visits \<and> store lq (vkey v) = Some it \<and>
             vkey v \<notin> set topItems \<and> vkey v \<notin> ID ` set fileItems"
        and t: "vnow v = Added it * 1000000000 + 9 * 3600 * 1000000000" for v it
    proof -
      from h t have "?stale v it"
        by simp
      with one[of v it] h show ?thesis
        by blast
    qed
    show "store (fst (sweep topItems fileItems visits lq)) (vkey v) = Some it"
      if h: "v \<in> set visits \<and> store lq (vkey v) = Some it \<and>
             vkey v \<notin> set topItems \<and> vkey v \<notin> ID ` set fileItems"
        and t: "vnow v = Added it * 1000000000 + 1 * 3600 * 1000000000" for v it
    proof -
      from t have "\<not> ?stale v it"
        by simp
      with unchanged[of v it] h show ?thesis
        by blast
    qed
  qed
qed

text \<open>
  Two remote items that are neither in the ranking \<open>[5, 6]\<close> nor in the (empty) file,
  visited at second 33400: item 1 was added at second 1000, 9 hours earlier, and is
  evicted; item 2 was added at second 29800, 1 hour earlier, and stays.
\<close>

theorem reconciliation_staleness_witness:
  "store (fst (snd (storyRemover (Inr [5, 6]) (Inr [])
       [\<lparr>vkey = 2, vnow = 33400000000000, vcancelled = False\<rparr>,
        \<lparr>vkey = 1, vnow = 33400000000000, vcancelled = False\<rparr>]
       \<lparr>limit = 300, keys = [1, 2],
        store = [1 \<mapsto> \<lparr>ID = 1, URL = [], Added = 1000, Domain_f = [], From = ''hn'', DiscussLink = []\<rparr>,
                 2 \<mapsto> \<lparr>ID = 2, URL = [], Added = 29800, Domain_f = [], From = ''hn'', DiscussLink = []\<rparr>]\<rparr>))) 1
     = None \<and>
   store (fst (snd (storyRemover (Inr [5, 6]) (Inr [])
       [\<lparr>vkey = 2, vnow = 33400000000000, vcancelled = False\<rparr>,
        \<lparr>vkey = 1, vnow = 33400000000000, vcancelled = False\<rparr>]
       \<lparr>limit = 300, keys = [1, 2],
        store = [1 \<mapsto> \<lparr>ID = 1, URL = [], Added = 1000, Domain_f = [], From = ''hn'', DiscussLink = []\<rparr>,
                 2 \<mapsto> \<lparr>ID = 2, URL = [], Added = 29800, Domain_f = [], From = ''hn'', DiscussLink = []\<rparr>]\<rparr>))) 2
     = Some \<lparr>ID = 2, URL = [], Added = 29800, Domain_f = [], From = ''hn'', DiscussLink = []\<rparr> \<and>
   snd (snd (storyRemover (Inr [5, 6]) (Inr [])
       [\<lparr>vkey = 2, vnow = 33400000000000, vcancelled = False\<rparr>,
        \<lparr>vkey = 1, vnow = 33400000000000, vcancelled = False\<rparr>]
       \<lparr>limit = 300, keys = [1, 2],
        store = [1 \<mapsto> \<lparr>ID = 1, URL = [], Added = 1000, Domain_f = [], From = ''hn'', DiscussLink = []\<rparr>,
                 2 \<mapsto> \<lparr>ID = 2, URL = [], Added = 29800, Domain_f = [], From = ''hn'', DiscussLink = []\<rparr>]\<rparr>))
     = [\<lparr>Action = changeRemove,
         Item = \<lparr>ID = 1, URL = [], Added = 1000, Domain_f = [], From = ''hn'', DiscussLink = []\<rparr>\<rparr>]"
proof -
  let ?i1 = "\<lparr>ID = 1, URL = [], Added = 1000, Domain_f = [], From = ''hn'', DiscussLink = []\<rparr>"
  let ?i2 = "\<lparr>ID = 2, URL = [], Added = 29800, Domain_f = [], From = ''hn'', DiscussLink = []\<rparr>"
  let ?v2 = "\<lparr>vkey = 2, vnow = 33400000000000, vcancelled = False\<rparr>"
  let ?v1 = "\<lparr>vkey = 1, vnow = 33400000000000, vcancelled = False\<rparr>"
  let ?lq = "\<lparr>limit = 300, keys = [1, 2], store = [1 \<mapsto> ?i1, 2 \<mapsto> ?i2]\<rparr>"
  let ?res = "storyRemover (Inr [5, 6]) (Inr []) [?v2, ?v1] ?lq"
  have f1: "fetchTopStories (Inr [5, 6]) frontPageNumArticles = Inr [5, 6]"
    by (simp add: fetchTopStories_def frontPageNumArticles_def)
  have f2: "fetchStoriesFromFile (Inr []) = Inr []"
    by (simp add: fetchStoriesFromFile_def)
  have d: "distinct (map vkey [?v2, ?v1])"
    by simp
  have nc: "list_all (\<lambda>v. \<not> vcancelled v) [?v2, ?v1]"
    by simp
  have rg: "\<forall>v it. v \<in> set [?v2, ?v1] \<and> store ?lq (vkey v) = Some it \<longrightarrow>
           - (2 ^ 63) \<le> Added it \<and> Added it \<le> 2 ^ 63 - 1 - 62135596800"
    by auto
  note t = reconciliation_staleness[OF f1 f2 d nc rg]
  have p1: "?v1 \<in> set [?v2, ?v1] \<and> store ?lq (vkey ?v1) = Some ?i1"
    by simp
  have p2: "?v2 \<in> set [?v2, ?v1] \<and> store ?lq (vkey ?v2) = Some ?i2 \<and>
            vkey ?v2 \<notin> set [5, 6] \<and> vkey ?v2 \<notin> ID ` set []"
    by simp
  have t2: "vnow ?v2 = Added ?i2 * 1000000000 + 1 * 3600 * 1000000000"
    by simp
  from t[THEN conjunct2, THEN conjunct1, rule_format, OF p1]
  have r1: "store (fst (snd ?res)) 1 = None"
    by (simp add: itemFromFile_def)
  from t[THEN conjunct2, THEN conjunct2, THEN conjunct2, THEN conjunct2, THEN conjunct2,
      rule_format, OF p2, THEN conjunct2, rule_format, OF t2]
  have r2: "store (fst (snd ?res)) 2 = Some ?i2"
    by simp
  from t[THEN conjunct2, THEN conjunct2, THEN conjunct2, THEN conjunct1]
  have r3: "snd (snd ?res) = [\<lparr>Action = changeRemove, Item = ?i1\<rparr>]"
    by (simp add: itemFromFile_def)
  from r1 r2 r3 show ?thesis
    by blast
qed

text \<open>
  Claim C7 as stated does not hold. The item 1 is tagged \<^verbatim>\<open>hn\<close> and its ID is in the
  file (the file fetcher leaves a tag that is not empty as it is), so it is in the union
  of the remote ranking and the file IDs. Being tagged \<^verbatim>\<open>hn\<close> it is looked up in the
  ranking \<open>[5, 6]\<close> only, and 9 hours after \<^verbatim>\<open>Added\<close> it is evicted.
\<close>

theorem canonical_union_counterexample:
  "inFileItems 1 [\<lparr>ID = 1, URL = [], Added = 1000, Domain_f = [], From = ''hn'', DiscussLink = []\<rparr>] \<and>
   store (fst (snd (storyRemover (Inr [5, 6])
       (Inr [\<lparr>ID = 1, URL = [], Added = 1000, Domain_f = [], From = ''hn'', DiscussLink = []\<rparr>])
       [\<lparr>vkey = 1, vnow = 33400000000000, vcancelled = False\<rparr>]
       \<lparr>limit = 300, keys = [1],
        store = [1 \<mapsto> \<lparr>ID = 1, URL = [], Added = 1000, Domain_f = [], From = ''hn'', DiscussLink = []\<rparr>]\<rparr>))) 1
     = None \<and>
   snd (snd (storyRemover (Inr [5, 6])
       (Inr [\<lparr>ID = 1, URL = [], Added = 1000, Domain_f = [], From = ''hn'', DiscussLink = []\<rparr>])
       [\<lparr>vkey = 1, vnow = 33400000000000, vcancelled = False\<rparr>]
       \<lparr>limit = 300, keys = [1],
        store = [1 \<mapsto> \<lparr>ID = 1, URL = [], Added = 1000, Domain_f = [], From = ''hn'', DiscussLink = []\<rparr>]\<rparr>))
     = [\<lparr>Action = changeRemove,
         Item = \<lparr>ID = 1, URL = [], Added = 1000, Domain_f = [], From = ''hn'', DiscussLink = []\<rparr>\<rparr>]"
  by (simp add: storyRemover_def fetchTopStories_def frontPageNumArticles_def
      fetchStoriesFromFile_def evictable_iff stillAtTop_def itemFromFile_def remove_def)

text \<open>
  Claim C7, amended. A tracked item whose ID is in the list that belongs to its tag
  (the items of the file for an item tagged \<^verbatim>\<open>file\<close>, the remote ranking for every other
  item) is never evicted by \<^verbatim>\<open>storyRemover\<close>, whatever its age, the order of the visits,
  their times and cancellation: its entry and its key stay, and every change sent is
  the removal of an entry that was not still canonical.
\<close>

theorem reconciliation_keeps_matching:
  assumes "fetchTopStories resp frontPageNumArticles = Inr topItems"
    and "fetchStoriesFromFile decoded = Inr fileItems"
    and "store lq k = Some it"
    and "(From it = itemFromFile \<and> k \<in> ID ` set fileItems) \<or>
         (From it \<noteq> itemFromFile \<and> k \<in> set topItems)"
  shows "store (fst (snd (storyRemover resp decoded visits lq))) k = Some it \<and>
         (k \<in> set (keys lq) \<longrightarrow> k \<in> set (keys (fst (snd (storyRemover resp decoded visits lq))))) \<and>
         (\<forall>c. c \<in> set (snd (snd (storyRemover resp decoded visits lq))) \<longrightarrow>
            (\<exists>k' it'. store lq k' = Some it' \<and> \<not> stillAtTop topItems fileItems k' it' \<and>
               c = \<lparr>Action = changeRemove, Item = it'\<rparr>))"
proof -
  note run = storyRemover_Inr[OF assms(1,2), of visits lq]
  from assms(4) have top: "stillAtTop topItems fileItems k it"
    by (auto simp add: stillAtTop_def inFileItems_iff inTopItems_iff)
  have "\<exists>k' it'. store lq k' = Some it' \<and> \<not> stillAtTop topItems fileItems k' it' \<and>
               c = \<lparr>Action = changeRemove, Item = it'\<rparr>"
    if "c \<in> set (snd (sweep topItems fileItems visits lq))" for c
    using sweep_sent_removed[OF that] by (auto simp add: evictable_def)
  then show ?thesis
    unfolding run fst_conv snd_conv
    using sweep_keeps[OF assms(3) top, of visits] sweep_keeps_key[OF assms(3) top, of visits]
    by blast
qed


text \<open>
  The remote item 1 is in the ranking \<open>[1, 6]\<close>; visited 9 hours after \<^verbatim>\<open>Added\<close> it
  stays, and nothing is sent.
\<close>

theorem reconciliation_keeps_matching_witness:
  "store (fst (snd (storyRemover (Inr [1, 6]) (Inr [])
       [\<lparr>vkey = 1, vnow = 33400000000000, vcancelled = False\<rparr>]
       \<lparr>limit = 300, keys = [1],
        store = [1 \<mapsto> \<lparr>ID = 1, URL = [], Added = 1000, Domain_f = [], From = ''hn'', DiscussLink = []\<rparr>]\<rparr>))) 1
     = Some \<lparr>ID = 1, URL = [], Added = 1000, Domain_f = [], From = ''hn'', DiscussLink = []\<rparr> \<and>
   keys (fst (snd (storyRemover (Inr [1, 6]) (Inr [])
       [\<lparr>vkey = 1, vnow = 33400000000000, vcancelled = False\<rparr>]
       \<lparr>limit = 300, keys = [1],
        store = [1 \<mapsto> \<lparr>ID = 1, URL = [], Added = 1000, Domain_f = [], From = ''hn'', DiscussLink = []\<rparr>]\<rparr>))) = [1] \<and>
   snd (snd (storyRemover (Inr [1, 6]) (Inr [])
       [\<lparr>vkey = 1, vnow = 33400000000000, vcancelled = False\<rparr>]
       \<lparr>limit = 300, keys = [1],
        store = [1 \<mapsto> \<lparr>ID = 1, URL = [], Added = 1000, Domain_f = [], From = ''hn'', DiscussLink = []\<rparr>]\<rparr>)) = []"
proof -
  let ?i1 = "\<lparr>ID = 1, URL = [], Added = 1000, Domain_f = [], From = ''hn'', DiscussLink = []\<rparr>"
  let ?v1 = "\<lparr>vkey = 1, vnow = 33400000000000, vcancelled = False\<rparr>"
  let ?lq = "\<lparr>limit = 300, keys = [1], store = [1 \<mapsto> ?i1]\<rparr>"
  let ?res = "storyRemover (Inr [1, 6]) (Inr []) [?v1] ?lq"
  have f1: "fetchTopStories (Inr [1, 6]) frontPageNumArticles = Inr [1, 6]"
    by (simp add: fetchTopStories_def frontPageNumArticles_def)
  have f2: "fetchStoriesFromFile (Inr []) = Inr []"
    by (simp add: fetchStoriesFromFile_def)
  have st: "store ?lq 1 = Some ?i1"
    by simp
  have m: "(From ?i1 = itemFromFile \<and> 1 \<in> ID ` set []) \<or> (From ?i1 \<noteq> itemFromFile \<and> 1 \<in> set [1, 6])"
    by (simp add: itemFromFile_def)
  from reconciliation_keeps_matching[OF f1 f2 st m, of "[?v1]"]
  have "store (fst (snd ?res)) 1 = Some ?i1"
    by blast
  moreover have "keys (fst (snd ?res)) = [1]" and "snd (snd ?res) = []"
    by (simp_all add: storyRemover_def f1 f2 evictable_def stillAtTop_def itemFromFile_def)
  ultimately show ?thesis
    by blast
qed

end
